theory Spec2Isabelle
  imports Complex_Main "HOL-Library.Word" "HOL-Library.Log_Nat"
begin

section \<open>FlowGuard: the quota admission engine\<close>

text \<open>
  A shallow embedding of package \<open>types\<close> (ClientConfig, ClientStats, TokenBucket,
  RateLimitError) and of package \<open>limiter\<close> (Manager and its methods).

  Conventions of the embedding:
  \<^item> Go's \<open>int64\<close> is \<open>64 word\<close>: \<open>+\<close> wraps, \<open>sint\<close> reads the signed value,
    \<open><s\<close> is the signed comparison.
  \<^item> Go's \<open>float64\<close> is \<open>real\<close>. The conversion \<open>float64(n)\<close> of an \<open>int64\<close> rounds
    to 53 significant bits as Go does (\<open>float64_of\<close>); the additions, products and
    quotients of the buckets and of the latency average are exact here, and infinities
    and NaN are not modelled.
  \<^item> \<open>time.Time\<close> is a \<open>real\<close> number of seconds; \<open>now.Sub(t).Seconds()\<close> is a
    difference. Every \<open>time.Now()\<close> of the source is a reading of a clock that the
    caller of the model supplies: a function from the place of the read (\<open>site\<close>) to
    the time read there.
  \<^item> A pointer that may be nil is an \<open>option\<close>; a Go map is a partial function.
    Dereferencing nil panics in Go; the model returns \<open>Inl NilPointerDereference\<close>.
  \<^item> A pointer that the Manager keeps or hands out (the configuration passed to
    \<open>SetClientConfig\<close>, the records that the statistics readers return) is the value
    it points to at that moment: no caller in the repository writes through one.
  \<^item> Every method runs alone, from its first line to its last, except in the model of
    \<open>CheckAndConsume\<close> between its locks, where calls of other goroutines run between
    the sections in which \<open>CheckAndConsume\<close> holds a mutex.
\<close>

type_synonym int64 = "64 word"
type_synonym time = real

subsection \<open>Package types\<close>

record ClientConfig =
  ClientID :: string
  RPM :: "int64 option"
  TPM :: "int64 option"
  Enabled :: bool

text \<open>The field \<open>ClientID\<close> of ClientStats is \<open>StatsClientID\<close> here: record fields
  share one name space.\<close>

record ClientStats =
  StatsClientID :: string
  TotalRequests :: int64
  SuccessRequests :: int64
  DroppedRequests :: int64
  RPMDropped :: int64
  TPMDropped :: int64
  TokensUsed :: int64
  RPMRemaining :: int64
  TPMRemaining :: int64
  LastRequestTime :: time
  AvgLatencyMs :: real

record TokenBucket =
  capacity :: int64
  tokens :: real
  refillRate :: real
  lastRefill :: time

record RateLimitError =
  Type :: string
  Message :: string

definition ErrRPMExceeded :: RateLimitError where
  "ErrRPMExceeded = \<lparr>Type = ''rpm_exceeded'', Message = ''Request rate limit exceeded''\<rparr>"

definition ErrTPMExceeded :: RateLimitError where
  "ErrTPMExceeded = \<lparr>Type = ''tpm_exceeded'', Message = ''Token rate limit exceeded''\<rparr>"

definition ErrClientNotFound :: RateLimitError where
  "ErrClientNotFound = \<lparr>Type = ''client_not_found'', Message = ''Client not configured''\<rparr>"

text \<open>\<open>float64(n)\<close> for an \<open>int64\<close>. A \<open>float64\<close> has 53 significant bits, so an
  integer of more bits is rounded to the nearest multiple of \<open>2 ^ (bits - 53)\<close>, a tie
  going to the multiple with the even quotient (IEEE 754 round-to-nearest-even, the
  rounding of Go's conversion). Integers of magnitude up to \<open>2 ^ 53\<close> convert exactly.\<close>

definition round_to_even :: "int \<Rightarrow> int \<Rightarrow> int" where
  "round_to_even i d =
     (let q = i div d; r = i mod d
      in if 2 * r < d then q * d
         else if d < 2 * r then (q + 1) * d
         else if even q then q * d else (q + 1) * d)"

definition float64_of :: "int64 \<Rightarrow> real" where
  "float64_of n =
     (let i = sint n; ulp = 2 ^ nat (bitlen \<bar>i\<bar> - 53)
      in real_of_int (round_to_even i ulp))"

text \<open>\<open>int64(x)\<close> for a \<open>float64\<close>: the conversion truncates toward zero. Outside the
  range of \<open>int64\<close> Go leaves the result to the implementation; the model wraps.\<close>

definition int64_of :: "real \<Rightarrow> int64" where
  "int64_of x = word_of_int (if 0 \<le> x then \<lfloor>x\<rfloor> else \<lceil>x\<rceil>)"

text \<open>The source's own \<open>min\<close> on \<open>float64\<close>.\<close>

definition min_float :: "real \<Rightarrow> real \<Rightarrow> real" where
  "min_float a b = (if a < b then a else b)"

definition NewTokenBucket :: "int64 \<Rightarrow> int64 \<Rightarrow> time \<Rightarrow> TokenBucket" where
  "NewTokenBucket cap refillPerMinute now =
     (let rate = float64_of refillPerMinute / 60
      in \<lparr>capacity = cap, tokens = float64_of cap, refillRate = rate, lastRefill = now\<rparr>)"

definition refill :: "TokenBucket \<Rightarrow> time \<Rightarrow> TokenBucket" where
  "refill tb now =
     (let elapsed = now - lastRefill tb
      in if elapsed > 0
         then (let tokensToAdd = elapsed * refillRate tb
               in tb\<lparr>tokens := min_float (tokens tb + tokensToAdd) (float64_of (capacity tb)),
                     lastRefill := now\<rparr>)
         else tb)"

text \<open>\<open>TryConsume\<close> and \<open>GetRemainingTokens\<close> change the bucket (the refill) and return
  a value: the model returns the bucket after the call and the value.\<close>

definition TryConsume :: "TokenBucket \<Rightarrow> int64 \<Rightarrow> time \<Rightarrow> TokenBucket \<times> bool" where
  "TryConsume tb n now =
     (let tb1 = refill tb now
      in if tokens tb1 \<ge> float64_of n
         then (tb1\<lparr>tokens := tokens tb1 - float64_of n\<rparr>, True)
         else (tb1, False))"

definition GetRemainingTokens :: "TokenBucket \<Rightarrow> time \<Rightarrow> TokenBucket \<times> int64" where
  "GetRemainingTokens tb now =
     (let tb1 = refill tb now in (tb1, int64_of (tokens tb1)))"

subsection \<open>Package limiter\<close>

record ClientLimiter =
  config :: ClientConfig
  rpmBucket :: "TokenBucket option"
  tpmBucket :: "TokenBucket option"

record Manager =
  clients :: "string \<rightharpoonup> ClientLimiter"
  stats :: "string \<rightharpoonup> ClientStats"

datatype error = NilPointerDereference

text \<open>The places where the Manager reads the clock: the two \<open>NewTokenBucket\<close> calls and
  the statistics record of \<open>SetClientConfig\<close>, the statistics record that
  \<open>CheckAndConsume\<close> creates itself, its two \<open>TryConsume\<close> calls, the final update of
  the statistics, and the two \<open>GetRemainingTokens\<close> calls of the statistics readers.\<close>

datatype site =
  AtNewRpmBucket | AtNewTpmBucket | AtInitStats | AtProvisionStats
  | AtRpmConsume | AtTpmConsume | AtUpdateStats | AtRpmRemaining | AtTpmRemaining

type_synonym clock = "site \<Rightarrow> time"

definition NewManager :: Manager where
  "NewManager = \<lparr>clients = Map.empty, stats = Map.empty\<rparr>"

text \<open>\<open>&types.ClientStats{ClientID: id, LastRequestTime: time.Now()}\<close>: every other
  field has Go's zero value.\<close>

definition newClientStats :: "string \<Rightarrow> time \<Rightarrow> ClientStats" where
  "newClientStats clientID now =
     \<lparr>StatsClientID = clientID, TotalRequests = 0, SuccessRequests = 0, DroppedRequests = 0,
      RPMDropped = 0, TPMDropped = 0, TokensUsed = 0, RPMRemaining = 0, TPMRemaining = 0,
      LastRequestTime = now, AvgLatencyMs = 0\<rparr>"

definition SetClientConfig :: "Manager \<Rightarrow> ClientConfig \<Rightarrow> clock \<Rightarrow> Manager" where
  "SetClientConfig m cfg clk =
     (let rpmB = (case RPM cfg of
                    Some r \<Rightarrow> if 0 <s r then Some (NewTokenBucket r r (clk AtNewRpmBucket)) else None
                  | None \<Rightarrow> None);
          tpmB = (case TPM cfg of
                    Some t \<Rightarrow> if 0 <s t then Some (NewTokenBucket t t (clk AtNewTpmBucket)) else None
                  | None \<Rightarrow> None);
          clients1 = (clients m)(ClientID cfg \<mapsto> \<lparr>config = cfg, rpmBucket = rpmB, tpmBucket = tpmB\<rparr>);
          stats1 = (case stats m (ClientID cfg) of
                      None \<Rightarrow> (stats m)(ClientID cfg \<mapsto> newClientStats (ClientID cfg) (clk AtInitStats))
                    | Some _ \<Rightarrow> stats m)
      in \<lparr>clients = clients1, stats = stats1\<rparr>)"

definition updateSuccessStats :: "Manager \<Rightarrow> string \<Rightarrow> int64 \<Rightarrow> time \<Rightarrow> error + Manager" where
  "updateSuccessStats m clientID toks now =
     (case stats m clientID of
        None \<Rightarrow> Inl NilPointerDereference
      | Some s \<Rightarrow>
          Inr (m\<lparr>stats := (stats m)(clientID \<mapsto>
                 s\<lparr>TotalRequests := TotalRequests s + 1,
                   SuccessRequests := SuccessRequests s + 1,
                   TokensUsed := TokensUsed s + toks,
                   LastRequestTime := now\<rparr>)\<rparr>))"

definition updateDroppedStats :: "Manager \<Rightarrow> string \<Rightarrow> string \<Rightarrow> time \<Rightarrow> error + Manager" where
  "updateDroppedStats m clientID reason now =
     (case stats m clientID of
        None \<Rightarrow> Inl NilPointerDereference
      | Some s \<Rightarrow>
          (let s1 = s\<lparr>TotalRequests := TotalRequests s + 1,
                      DroppedRequests := DroppedRequests s + 1,
                      LastRequestTime := now\<rparr>;
               s2 = (if reason = ''rpm'' then s1\<lparr>RPMDropped := RPMDropped s1 + 1\<rparr>
                     else if reason = ''tpm'' then s1\<lparr>TPMDropped := TPMDropped s1 + 1\<rparr>
                     else s1)
           in Inr (m\<lparr>stats := (stats m)(clientID \<mapsto> s2)\<rparr>)))"

text \<open>The verdict of \<open>CheckAndConsume\<close> is Go's \<open>error\<close>: \<open>None\<close> is nil (admitted).\<close>

definition returning :: "RateLimitError option \<Rightarrow> error + Manager \<Rightarrow> error + (Manager \<times> RateLimitError option)" where
  "returning v r = (case r of Inl e \<Rightarrow> Inl e | Inr m \<Rightarrow> Inr (m, v))"

definition CheckAndConsume ::
  "Manager \<Rightarrow> string \<Rightarrow> int64 \<Rightarrow> clock \<Rightarrow> error + (Manager \<times> RateLimitError option)" where
  "CheckAndConsume m clientID tokenEstimate clk =
     (let exists = (clients m clientID \<noteq> None);
          statsExists = (stats m clientID \<noteq> None);
          m1 = (if \<not> exists
                then SetClientConfig m \<lparr>ClientID = clientID, RPM = None, TPM = None, Enabled = True\<rparr> clk
                else m);
          m2 = (if \<not> statsExists \<and> stats m1 clientID = None
                then m1\<lparr>stats := (stats m1)(clientID \<mapsto> newClientStats clientID (clk AtProvisionStats))\<rparr>
                else m1)
      in case clients m2 clientID of
           None \<Rightarrow> Inl NilPointerDereference
         | Some client \<Rightarrow>
             (let cfg = config client
              in if \<not> Enabled cfg
                 then returning None (updateSuccessStats m2 clientID tokenEstimate (clk AtUpdateStats))
                 else
                   (let (client3, rpmOk) =
                          (case (RPM cfg, rpmBucket client) of
                             (Some _, Some rb) \<Rightarrow>
                               (let (rb1, ok) = TryConsume rb 1 (clk AtRpmConsume)
                                in (client\<lparr>rpmBucket := Some rb1\<rparr>, ok))
                           | _ \<Rightarrow> (client, True));
                        m3 = m2\<lparr>clients := (clients m2)(clientID \<mapsto> client3)\<rparr>
                    in if \<not> rpmOk
                       then returning (Some ErrRPMExceeded)
                              (updateDroppedStats m3 clientID ''rpm'' (clk AtUpdateStats))
                       else
                         (let (client4, tpmOk) =
                                (case (TPM cfg, tpmBucket client3) of
                                   (Some _, Some tb) \<Rightarrow>
                                     (let (tb1, ok) = TryConsume tb tokenEstimate (clk AtTpmConsume)
                                      in (client3\<lparr>tpmBucket := Some tb1\<rparr>, ok))
                                 | _ \<Rightarrow> (client3, True));
                              m4 = m3\<lparr>clients := (clients m3)(clientID \<mapsto> client4)\<rparr>
                          in if \<not> tpmOk
                             then returning (Some ErrTPMExceeded)
                                    (updateDroppedStats m4 clientID ''tpm'' (clk AtUpdateStats))
                             else returning None
                                    (updateSuccessStats m4 clientID tokenEstimate (clk AtUpdateStats))))))"

definition GetClientConfig :: "Manager \<Rightarrow> string \<Rightarrow> ClientConfig option" where
  "GetClientConfig m clientID =
     (case clients m clientID of None \<Rightarrow> None | Some client \<Rightarrow> Some (config client))"

text \<open>The block that \<open>GetClientStats\<close> and \<open>GetAllStats\<close> both run for a client that has a
  limiter: each bucket that exists is refilled and read into the statistics record.\<close>

definition refreshRemaining :: "ClientLimiter \<Rightarrow> ClientStats \<Rightarrow> clock \<Rightarrow> ClientLimiter \<times> ClientStats" where
  "refreshRemaining client s clk =
     (let (client1, s1) =
            (case rpmBucket client of
               None \<Rightarrow> (client, s)
             | Some rb \<Rightarrow>
                 (let (rb1, n) = GetRemainingTokens rb (clk AtRpmRemaining)
                  in (client\<lparr>rpmBucket := Some rb1\<rparr>, s\<lparr>RPMRemaining := n\<rparr>)))
      in case tpmBucket client1 of
           None \<Rightarrow> (client1, s1)
         | Some tb \<Rightarrow>
             (let (tb1, n) = GetRemainingTokens tb (clk AtTpmRemaining)
              in (client1\<lparr>tpmBucket := Some tb1\<rparr>, s1\<lparr>TPMRemaining := n\<rparr>)))"

definition GetClientStats :: "Manager \<Rightarrow> string \<Rightarrow> clock \<Rightarrow> Manager \<times> ClientStats option" where
  "GetClientStats m clientID clk =
     (case stats m clientID of
        None \<Rightarrow> (m, None)
      | Some s \<Rightarrow>
          (case clients m clientID of
             None \<Rightarrow> (m, Some s)
           | Some client \<Rightarrow>
               (let (client1, s1) = refreshRemaining client s clk
                in (\<lparr>clients = (clients m)(clientID \<mapsto> client1),
                     stats = (stats m)(clientID \<mapsto> s1)\<rparr>, Some s1))))"

definition GetAllClients :: "Manager \<Rightarrow> (string \<rightharpoonup> ClientConfig)" where
  "GetAllClients m = (\<lambda>clientID. map_option config (clients m clientID))"

text \<open>\<open>GetAllStats\<close> ranges over the statistics map in Go's unspecified order. The body of
  the loop touches only the entry and the limiter of its own key, so the order does not
  matter and the model applies the body to every key at once. Each key has its own clock
  readings.\<close>

definition GetAllStats :: "Manager \<Rightarrow> (string \<Rightarrow> clock) \<Rightarrow> Manager \<times> (string \<rightharpoonup> ClientStats)" where
  "GetAllStats m clks =
     (let clients1 = (\<lambda>clientID.
            case clients m clientID of
              None \<Rightarrow> None
            | Some client \<Rightarrow>
                (case stats m clientID of
                   None \<Rightarrow> Some client
                 | Some s \<Rightarrow> Some (fst (refreshRemaining client s (clks clientID)))));
          stats1 = (\<lambda>clientID.
            case stats m clientID of
              None \<Rightarrow> None
            | Some s \<Rightarrow>
                (case clients m clientID of
                   None \<Rightarrow> Some s
                 | Some client \<Rightarrow> Some (snd (refreshRemaining client s (clks clientID)))))
      in (\<lparr>clients = clients1, stats = stats1\<rparr>, stats1))"

definition DeleteClient :: "Manager \<Rightarrow> string \<Rightarrow> Manager \<times> bool" where
  "DeleteClient m clientID =
     (let exists = (clients m clientID \<noteq> None)
      in (if exists
          then \<lparr>clients = (clients m)(clientID := None), stats = (stats m)(clientID := None)\<rparr>
          else m, exists))"

definition UpdateLatency :: "Manager \<Rightarrow> string \<Rightarrow> real \<Rightarrow> Manager" where
  "UpdateLatency m clientID latencyMs =
     (case stats m clientID of
        None \<Rightarrow> m
      | Some s \<Rightarrow>
          m\<lparr>stats := (stats m)(clientID \<mapsto>
              (if AvgLatencyMs s = 0
               then s\<lparr>AvgLatencyMs := latencyMs\<rparr>
               else s\<lparr>AvgLatencyMs := (AvgLatencyMs s + latencyMs) / 2\<rparr>))\<rparr>)"


subsection \<open>Runs of calls\<close>

text \<open>A call of a bucket's method with its argument and the clock reading it makes, and
  the bucket after a sequence of calls.\<close>

datatype bucket_call = TryConsumeCall int64 time | GetRemainingTokensCall time

fun bucket_step :: "TokenBucket \<Rightarrow> bucket_call \<Rightarrow> TokenBucket" where
  "bucket_step tb (TryConsumeCall n now) = fst (TryConsume tb n now)"
| "bucket_step tb (GetRemainingTokensCall now) = fst (GetRemainingTokens tb now)"

definition bucket_calls :: "TokenBucket \<Rightarrow> bucket_call list \<Rightarrow> TokenBucket" where
  "bucket_calls tb cs = foldl bucket_step tb cs"

fun nonneg_amount :: "bucket_call \<Rightarrow> bool" where
  "nonneg_amount (TryConsumeCall n now) = (0 \<le>s n)"
| "nonneg_amount (GetRemainingTokensCall now) = True"

text \<open>The bucket of the data model: the level lies between 0 and the capacity and the
  refill rate is not negative.\<close>

definition level_in_range :: "TokenBucket \<Rightarrow> bool" where
  "level_in_range tb \<longleftrightarrow> 0 \<le> tokens tb \<and> tokens tb \<le> float64_of (capacity tb)"

definition well_formed_bucket :: "TokenBucket \<Rightarrow> bool" where
  "well_formed_bucket tb \<longleftrightarrow> level_in_range tb \<and> 0 \<le> refillRate tb"

text \<open>A call of a public method of the Manager, and the Manager after it. The values
  the methods return are dropped here; a panic ends the run.\<close>

datatype op =
  OpCheckAndConsume string int64 clock
  | OpSetClientConfig ClientConfig clock
  | OpGetClientConfig string
  | OpGetClientStats string clock
  | OpGetAllClients
  | OpGetAllStats "string \<Rightarrow> clock"
  | OpDeleteClient string
  | OpUpdateLatency string real

fun exec :: "Manager \<Rightarrow> op \<Rightarrow> error + Manager" where
  "exec m (OpCheckAndConsume clientID tokenEstimate clk) =
     (case CheckAndConsume m clientID tokenEstimate clk of
        Inl e \<Rightarrow> Inl e
      | Inr (m1, v) \<Rightarrow> Inr m1)"
| "exec m (OpSetClientConfig cfg clk) = Inr (SetClientConfig m cfg clk)"
| "exec m (OpGetClientConfig clientID) = Inr m"
| "exec m (OpGetClientStats clientID clk) = Inr (fst (GetClientStats m clientID clk))"
| "exec m OpGetAllClients = Inr m"
| "exec m (OpGetAllStats clks) = Inr (fst (GetAllStats m clks))"
| "exec m (OpDeleteClient clientID) = Inr (fst (DeleteClient m clientID))"
| "exec m (OpUpdateLatency clientID latencyMs) = Inr (UpdateLatency m clientID latencyMs)"

fun run :: "Manager \<Rightarrow> op list \<Rightarrow> error + Manager" where
  "run m [] = Inr m"
| "run m (x # xs) = (case exec m x of Inl e \<Rightarrow> Inl e | Inr m1 \<Rightarrow> run m1 xs)"

inductive reachable :: "Manager \<Rightarrow> bool" where
  fresh: "reachable NewManager"
| call: "reachable m \<Longrightarrow> exec m x = Inr m1 \<Longrightarrow> reachable m1"

subsection \<open>CheckAndConsume in three parts\<close>

text \<open>
  For the proofs, \<open>CheckAndConsume\<close> is read in three parts, each a function of its own:
  the Manager when the method reaches its line 62 (the client and its statistics record
  are there), what lines 66 to 94 do to the client's limiter together with the verdict
  they return, and what \<open>updateSuccessStats\<close> or \<open>updateDroppedStats\<close> does to the
  statistics record for that verdict. Lemma \<open>CheckAndConsume_parts\<close> shows that the three
  parts put together are \<open>CheckAndConsume\<close>.
\<close>

definition provisioned :: "Manager \<Rightarrow> string \<Rightarrow> clock \<Rightarrow> Manager" where
  "provisioned m clientID clk =
     (let m1 = (if clients m clientID = None
                then SetClientConfig m \<lparr>ClientID = clientID, RPM = None, TPM = None, Enabled = True\<rparr> clk
                else m)
      in if stats m clientID = None \<and> stats m1 clientID = None
         then m1\<lparr>stats := (stats m1)(clientID \<mapsto> newClientStats clientID (clk AtProvisionStats))\<rparr>
         else m1)"

definition admit_rpm :: "ClientLimiter \<Rightarrow> clock \<Rightarrow> ClientLimiter \<times> bool" where
  "admit_rpm client clk =
     (case (RPM (config client), rpmBucket client) of
        (Some _, Some rb) \<Rightarrow>
          (client\<lparr>rpmBucket := Some (fst (TryConsume rb 1 (clk AtRpmConsume)))\<rparr>,
           snd (TryConsume rb 1 (clk AtRpmConsume)))
      | _ \<Rightarrow> (client, True))"

definition admit_tpm :: "ClientLimiter \<Rightarrow> int64 \<Rightarrow> clock \<Rightarrow> ClientLimiter \<times> bool" where
  "admit_tpm client tokenEstimate clk =
     (case (TPM (config client), tpmBucket client) of
        (Some _, Some tb) \<Rightarrow>
          (client\<lparr>tpmBucket := Some (fst (TryConsume tb tokenEstimate (clk AtTpmConsume)))\<rparr>,
           snd (TryConsume tb tokenEstimate (clk AtTpmConsume)))
      | _ \<Rightarrow> (client, True))"

definition admit :: "ClientLimiter \<Rightarrow> int64 \<Rightarrow> clock \<Rightarrow> ClientLimiter \<times> RateLimitError option" where
  "admit client tokenEstimate clk =
     (if \<not> Enabled (config client) then (client, None)
      else if \<not> snd (admit_rpm client clk) then (fst (admit_rpm client clk), Some ErrRPMExceeded)
      else if \<not> snd (admit_tpm (fst (admit_rpm client clk)) tokenEstimate clk)
      then (fst (admit_tpm (fst (admit_rpm client clk)) tokenEstimate clk), Some ErrTPMExceeded)
      else (fst (admit_tpm (fst (admit_rpm client clk)) tokenEstimate clk), None))"

definition success_stats :: "ClientStats \<Rightarrow> int64 \<Rightarrow> time \<Rightarrow> ClientStats" where
  "success_stats s toks now =
     s\<lparr>TotalRequests := TotalRequests s + 1, SuccessRequests := SuccessRequests s + 1,
       TokensUsed := TokensUsed s + toks, LastRequestTime := now\<rparr>"

definition dropped_stats :: "ClientStats \<Rightarrow> string \<Rightarrow> time \<Rightarrow> ClientStats" where
  "dropped_stats s reason now =
     (let s1 = s\<lparr>TotalRequests := TotalRequests s + 1, DroppedRequests := DroppedRequests s + 1,
                 LastRequestTime := now\<rparr>
      in if reason = ''rpm'' then s1\<lparr>RPMDropped := RPMDropped s1 + 1\<rparr>
         else if reason = ''tpm'' then s1\<lparr>TPMDropped := TPMDropped s1 + 1\<rparr>
         else s1)"

definition record_verdict :: "ClientStats \<Rightarrow> RateLimitError option \<Rightarrow> int64 \<Rightarrow> time \<Rightarrow> ClientStats" where
  "record_verdict s v toks now =
     (if v = None then success_stats s toks now
      else if v = Some ErrRPMExceeded then dropped_stats s ''rpm'' now
      else dropped_stats s ''tpm'' now)"

subsection \<open>Properties of the registry\<close>

text \<open>The two equations between the counters of a statistics record, in the arithmetic
  of \<open>int64\<close>.\<close>

definition stats_consistent :: "ClientStats \<Rightarrow> bool" where
  "stats_consistent s \<longleftrightarrow>
     TotalRequests s = SuccessRequests s + DroppedRequests s
     \<and> DroppedRequests s = RPMDropped s + TPMDropped s"

definition all_stats_consistent :: "Manager \<Rightarrow> bool" where
  "all_stats_consistent m \<longleftrightarrow> (\<forall>clientID s. stats m clientID = Some s \<longrightarrow> stats_consistent s)"

text \<open>A limiter has a bucket on a dimension exactly when its configuration has a limit
  on that dimension and the limit is positive.\<close>

definition buckets_match_limits :: "ClientLimiter \<Rightarrow> bool" where
  "buckets_match_limits c \<longleftrightarrow>
     (rpmBucket c \<noteq> None \<longleftrightarrow> (\<exists>r. RPM (config c) = Some r \<and> 0 <s r))
     \<and> (tpmBucket c \<noteq> None \<longleftrightarrow> (\<exists>t. TPM (config c) = Some t \<and> 0 <s t))"

text \<open>A clock that reads the same time at every site.\<close>

definition clock_at :: "time \<Rightarrow> clock" where
  "clock_at t site = t"

definition clocks_at :: "time \<Rightarrow> string \<Rightarrow> clock" where
  "clocks_at t clientID = clock_at t"

text \<open>The Manager after a run; a run that panics leaves the Manager it started from.\<close>

definition after :: "Manager \<Rightarrow> op list \<Rightarrow> Manager" where
  "after m xs = (case run m xs of Inr m1 \<Rightarrow> m1 | Inl e \<Rightarrow> m)"

text \<open>The smoothed latency in the words of the specification, to be compared with
  \<open>UpdateLatency\<close>: the average is \<open>(avg + sample) / 2\<close> if an average already exists,
  else it is the sample. \<open>None\<close> is "no average yet".\<close>

definition recordLatency_spec :: "real option \<Rightarrow> real \<Rightarrow> real option" where
  "recordLatency_spec avg x = (case avg of Some a \<Rightarrow> Some ((a + x) / 2) | None \<Rightarrow> Some x)"

text \<open>The consumption counters of a statistics record and its last-request time.\<close>

definition counters :: "ClientStats \<Rightarrow> int64 \<times> int64 \<times> int64 \<times> int64 \<times> int64 \<times> int64 \<times> time" where
  "counters s =
     (TotalRequests s, SuccessRequests s, DroppedRequests s, RPMDropped s, TPMDropped s,
      TokensUsed s, LastRequestTime s)"

text \<open>The two ways to read a client's statistics: \<open>GetClientStats\<close>, and \<open>GetAllStats\<close>
  followed by a lookup in the map it returns.\<close>

datatype reader = ByGetClientStats clock | ByGetAllStats "string \<Rightarrow> clock"

fun read_stats :: "Manager \<Rightarrow> string \<Rightarrow> reader \<Rightarrow> Manager \<times> ClientStats option" where
  "read_stats m clientID (ByGetClientStats clk) = GetClientStats m clientID clk"
| "read_stats m clientID (ByGetAllStats clks) =
     (fst (GetAllStats m clks), snd (GetAllStats m clks) clientID)"

text \<open>Calls other than \<open>CheckAndConsume\<close> and \<open>UpdateLatency\<close>.\<close>

fun no_decide_no_latency :: "op \<Rightarrow> bool" where
  "no_decide_no_latency (OpCheckAndConsume clientID w clk) = False"
| "no_decide_no_latency (OpUpdateLatency clientID x) = False"
| "no_decide_no_latency x = True"

text \<open>Calls other than \<open>CheckAndConsume\<close>, \<open>UpdateLatency\<close> and a \<open>DeleteClient\<close> of
  the given client.\<close>

fun keeps_record :: "string \<Rightarrow> op \<Rightarrow> bool" where
  "keeps_record k (OpDeleteClient clientID) = (clientID \<noteq> k)"
| "keeps_record k x = no_decide_no_latency x"

subsection \<open>CheckAndConsume between its locks\<close>

text \<open>
  \<open>CheckAndConsume\<close> does not hold \<open>m.mutex\<close> from its first line to its last. It
  takes the lock for the lookup (l.35-38), inside \<open>SetClientConfig\<close> (l.42), for the
  second lookup (l.46-48), for creating the statistics record (l.52-59) and inside
  \<open>updateSuccessStats\<close> and \<open>updateDroppedStats\<close>; the buckets have their own
  mutexes. Between two of these sections another goroutine can run a whole
  \<open>DeleteClient\<close> or \<open>SetClientConfig\<close>, each of which holds \<open>m.mutex\<close> for its
  entire body.

  The variable \<open>client\<close> is a pointer: the limiter it points to stays usable after
  \<open>DeleteClient\<close> has taken it out of the map. So this finer model keeps the limiters
  as objects at addresses: \<open>clientPtr\<close> is the map \<open>m.clients\<close>, \<open>limiterAt\<close> is the
  memory the pointers lead to, \<open>statsOf\<close> is \<open>m.stats\<close>, and \<open>nextAddr\<close> is the
  address of the next object that is allocated.
\<close>

type_synonym addr = nat

record Store =
  limiterAt :: "addr \<rightharpoonup> ClientLimiter"
  clientPtr :: "string \<rightharpoonup> addr"
  statsOf :: "string \<rightharpoonup> ClientStats"
  nextAddr :: addr

definition NewStore :: Store where
  "NewStore = \<lparr>limiterAt = Map.empty, clientPtr = Map.empty, statsOf = Map.empty, nextAddr = 0\<rparr>"

text \<open>The Manager that a store represents: each key with the limiter its pointer leads to.\<close>

definition manager_of :: "Store \<Rightarrow> Manager" where
  "manager_of st =
     \<lparr>clients = (\<lambda>clientID. case clientPtr st clientID of
                                None \<Rightarrow> None
                              | Some a \<Rightarrow> limiterAt st a),
      stats = statsOf st\<rparr>"

text \<open>\<open>SetClientConfig\<close> and \<open>DeleteClient\<close> on the store. \<open>SetClientConfig\<close> allocates
  a new limiter; the one the key pointed to before stays in memory.\<close>

definition store_SetClientConfig :: "Store \<Rightarrow> ClientConfig \<Rightarrow> clock \<Rightarrow> Store" where
  "store_SetClientConfig st cfg clk =
     (let rpmB = (case RPM cfg of
                    Some r \<Rightarrow> if 0 <s r then Some (NewTokenBucket r r (clk AtNewRpmBucket)) else None
                  | None \<Rightarrow> None);
          tpmB = (case TPM cfg of
                    Some t \<Rightarrow> if 0 <s t then Some (NewTokenBucket t t (clk AtNewTpmBucket)) else None
                  | None \<Rightarrow> None);
          a = nextAddr st
      in \<lparr>limiterAt = (limiterAt st)(a \<mapsto> \<lparr>config = cfg, rpmBucket = rpmB, tpmBucket = tpmB\<rparr>),
          clientPtr = (clientPtr st)(ClientID cfg \<mapsto> a),
          statsOf = (case statsOf st (ClientID cfg) of
                       None \<Rightarrow> (statsOf st)(ClientID cfg \<mapsto> newClientStats (ClientID cfg) (clk AtInitStats))
                     | Some _ \<Rightarrow> statsOf st),
          nextAddr = a + 1\<rparr>)"

definition store_DeleteClient :: "Store \<Rightarrow> string \<Rightarrow> Store \<times> bool" where
  "store_DeleteClient st clientID =
     (let exists = (clientPtr st clientID \<noteq> None)
      in (if exists
          then st\<lparr>clientPtr := (clientPtr st)(clientID := None),
                  statsOf := (statsOf st)(clientID := None)\<rparr>
          else st, exists))"

text \<open>A call of \<open>CheckAndConsume\<close> in flight: the section it runs next, and its local
  variables \<open>client\<close>, \<open>exists\<close>, \<open>statsExists\<close> and \<open>config\<close>.\<close>

datatype pc =
  PcLookup | PcProvision | PcRefetch | PcEnsureStats | PcReadConfig
  | PcCheckRPM | PcCheckTPM | PcSuccess | PcDropped string RateLimitError
  | PcReturned "RateLimitError option"

record frame =
  f_pc :: pc
  f_client :: "addr option"
  f_exists :: bool
  f_statsExists :: bool
  f_config :: "ClientConfig option"

definition entry_frame :: frame where
  "entry_frame = \<lparr>f_pc = PcLookup, f_client = None, f_exists = False, f_statsExists = False,
                  f_config = None\<rparr>"

text \<open>The statistics updates touch only \<open>m.stats\<close>: they are run on the Manager that
  the store represents and their statistics map is stored back.\<close>

definition store_update :: "Store \<Rightarrow> error + Manager \<Rightarrow> error + Store" where
  "store_update st r = (case r of Inl e \<Rightarrow> Inl e | Inr m \<Rightarrow> Inr (st\<lparr>statsOf := stats m\<rparr>))"

text \<open>One section of \<open>CheckAndConsume\<close>. Reading through a nil \<open>client\<close> (l.62) panics,
  and so do the statistics updates when the record is not in the map (l.226-227,
  l.238-239). An address without an object and a bucket section without \<open>config\<close> do
  not occur: every address comes from an allocation and \<open>config\<close> is set at l.63.\<close>

definition section_of :: "string \<Rightarrow> int64 \<Rightarrow> clock \<Rightarrow> Store \<Rightarrow> frame \<Rightarrow> error + (Store \<times> frame)" where
  "section_of clientID tokenEstimate clk st fr =
     (case f_pc fr of
        PcLookup \<Rightarrow>
          Inr (st, fr\<lparr>f_client := clientPtr st clientID,
                      f_exists := (clientPtr st clientID \<noteq> None),
                      f_statsExists := (statsOf st clientID \<noteq> None),
                      f_pc := PcProvision\<rparr>)
      | PcProvision \<Rightarrow>
          if \<not> f_exists fr
          then Inr (store_SetClientConfig st
                      \<lparr>ClientID = clientID, RPM = None, TPM = None, Enabled = True\<rparr> clk,
                    fr\<lparr>f_pc := PcRefetch\<rparr>)
          else Inr (st, fr\<lparr>f_pc := PcEnsureStats\<rparr>)
      | PcRefetch \<Rightarrow>
          Inr (st, fr\<lparr>f_client := clientPtr st clientID, f_pc := PcEnsureStats\<rparr>)
      | PcEnsureStats \<Rightarrow>
          Inr (if \<not> f_statsExists fr \<and> statsOf st clientID = None
               then st\<lparr>statsOf := (statsOf st)(clientID \<mapsto>
                         newClientStats clientID (clk AtProvisionStats))\<rparr>
               else st,
               fr\<lparr>f_pc := PcReadConfig\<rparr>)
      | PcReadConfig \<Rightarrow>
          (case f_client fr of
             None \<Rightarrow> Inl NilPointerDereference
           | Some a \<Rightarrow>
               (case limiterAt st a of
                  None \<Rightarrow> Inl NilPointerDereference
                | Some client \<Rightarrow>
                    Inr (st, fr\<lparr>f_config := Some (config client),
                                f_pc := (if \<not> Enabled (config client) then PcSuccess
                                         else PcCheckRPM)\<rparr>)))
      | PcCheckRPM \<Rightarrow>
          (case (f_client fr, f_config fr) of
             (Some a, Some cfg) \<Rightarrow>
               (case limiterAt st a of
                  None \<Rightarrow> Inl NilPointerDereference
                | Some client \<Rightarrow>
                    (case (RPM cfg, rpmBucket client) of
                       (Some _, Some rb) \<Rightarrow>
                         (let (rb1, ok) = TryConsume rb 1 (clk AtRpmConsume)
                          in Inr (st\<lparr>limiterAt := (limiterAt st)(a \<mapsto> client\<lparr>rpmBucket := Some rb1\<rparr>)\<rparr>,
                                  fr\<lparr>f_pc := (if \<not> ok then PcDropped ''rpm'' ErrRPMExceeded
                                               else PcCheckTPM)\<rparr>))
                     | _ \<Rightarrow> Inr (st, fr\<lparr>f_pc := PcCheckTPM\<rparr>)))
           | _ \<Rightarrow> Inl NilPointerDereference)
      | PcCheckTPM \<Rightarrow>
          (case (f_client fr, f_config fr) of
             (Some a, Some cfg) \<Rightarrow>
               (case limiterAt st a of
                  None \<Rightarrow> Inl NilPointerDereference
                | Some client \<Rightarrow>
                    (case (TPM cfg, tpmBucket client) of
                       (Some _, Some tb) \<Rightarrow>
                         (let (tb1, ok) = TryConsume tb tokenEstimate (clk AtTpmConsume)
                          in Inr (st\<lparr>limiterAt := (limiterAt st)(a \<mapsto> client\<lparr>tpmBucket := Some tb1\<rparr>)\<rparr>,
                                  fr\<lparr>f_pc := (if \<not> ok then PcDropped ''tpm'' ErrTPMExceeded
                                               else PcSuccess)\<rparr>))
                     | _ \<Rightarrow> Inr (st, fr\<lparr>f_pc := PcSuccess\<rparr>)))
           | _ \<Rightarrow> Inl NilPointerDereference)
      | PcSuccess \<Rightarrow>
          (case store_update st
                  (updateSuccessStats (manager_of st) clientID tokenEstimate (clk AtUpdateStats)) of
             Inl e \<Rightarrow> Inl e
           | Inr st1 \<Rightarrow> Inr (st1, fr\<lparr>f_pc := PcReturned None\<rparr>))
      | PcDropped reason err \<Rightarrow>
          (case store_update st
                  (updateDroppedStats (manager_of st) clientID reason (clk AtUpdateStats)) of
             Inl e \<Rightarrow> Inl e
           | Inr st1 \<Rightarrow> Inr (st1, fr\<lparr>f_pc := PcReturned (Some err)\<rparr>))
      | PcReturned v \<Rightarrow> Inr (st, fr))"

text \<open>A schedule: the call in flight runs its next section, or another goroutine runs a
  whole \<open>DeleteClient\<close> or \<open>SetClientConfig\<close>.\<close>

datatype action = Advance | OtherDeleteClient string | OtherSetClientConfig ClientConfig clock

fun scheduled ::
  "string \<Rightarrow> int64 \<Rightarrow> clock \<Rightarrow> Store \<Rightarrow> frame \<Rightarrow> action list \<Rightarrow> error + (Store \<times> frame)" where
  "scheduled clientID w clk st fr [] = Inr (st, fr)"
| "scheduled clientID w clk st fr (Advance # as) =
     (case section_of clientID w clk st fr of
        Inl e \<Rightarrow> Inl e
      | Inr (st1, fr1) \<Rightarrow> scheduled clientID w clk st1 fr1 as)"
| "scheduled clientID w clk st fr (OtherDeleteClient k # as) =
     scheduled clientID w clk (fst (store_DeleteClient st k)) fr as"
| "scheduled clientID w clk st fr (OtherSetClientConfig cfg clk1 # as) =
     scheduled clientID w clk (store_SetClientConfig st cfg clk1) fr as"

text \<open>The stores that the allocations build: a pointer of the map leads to an object at
  an address below \<open>nextAddr\<close>, and two keys never share an object.\<close>

definition store_ok :: "Store \<Rightarrow> bool" where
  "store_ok st \<longleftrightarrow>
     (\<forall>k a. clientPtr st k = Some a \<longrightarrow> a < nextAddr st \<and> limiterAt st a \<noteq> None)
     \<and> (\<forall>k k' a. clientPtr st k = Some a \<and> clientPtr st k' = Some a \<longrightarrow> k = k')"

section \<open>The token bucket\<close>

lemma refill_capacity [simp]: "capacity (refill tb now) = capacity tb"
  by (simp add: refill_def Let_def)

lemma refill_refillRate [simp]: "refillRate (refill tb now) = refillRate tb"
  by (simp add: refill_def Let_def)

lemma refill_level_in_range:
  assumes "level_in_range tb" and "0 \<le> refillRate tb"
  shows "level_in_range (refill tb now)"
proof (cases "now - lastRefill tb > 0")
  case True
  then have "0 \<le> (now - lastRefill tb) * refillRate tb"
    using assms(2) by simp
  then show ?thesis
    using assms(1) True by (simp add: refill_def Let_def level_in_range_def min_float_def)
next
  case False
  then show ?thesis using assms(1) by (simp add: refill_def)
qed

lemma refill_well_formed: "well_formed_bucket tb \<Longrightarrow> well_formed_bucket (refill tb now)"
  by (simp add: well_formed_bucket_def refill_level_in_range)

lemma round_to_even_exact:
  assumes "\<bar>i\<bar> \<le> 2 ^ 53"
  shows "round_to_even i (2 ^ nat (bitlen \<bar>i\<bar> - 53)) = i"
proof (cases "\<bar>i\<bar> < 2 ^ 53")
  case True
  then have "bitlen \<bar>i\<bar> \<le> 53"
    by (simp add: bitlen_le_iff_power)
  then have "nat (bitlen \<bar>i\<bar> - 53) = 0" by simp
  then show ?thesis by (simp add: round_to_even_def Let_def)
next
  case False
  then have e: "\<bar>i\<bar> = 2 ^ 53" using assms by simp
  have "bitlen (2 ^ 53) = 54"
    using bitlen_pow2 [of 1 53] by (simp add: compute_bitlen)
  then have u: "nat (bitlen \<bar>i\<bar> - 53) = 1" using e by simp
  from e have "i = 2 ^ 53 \<or> i = - (2 ^ 53)" by linarith
  then show ?thesis
    unfolding u by (auto simp: round_to_even_def)
qed

lemma round_to_even_nonneg:
  assumes "0 \<le> i" and "0 < d"
  shows "0 \<le> round_to_even i d"
proof -
  have "0 \<le> i div d" using assms by (simp add: pos_imp_zdiv_nonneg_iff)
  then have "0 \<le> (i div d) * d" and "0 \<le> (i div d + 1) * d"
    using assms(2) by simp_all
  then show ?thesis by (simp add: round_to_even_def Let_def)
qed

lemma round_to_even_ge_1:
  assumes "1 \<le> i"
  shows "1 \<le> round_to_even i (2 ^ nat (bitlen \<bar>i\<bar> - 53))"
proof -
  define d :: int where "d = 2 ^ nat (bitlen i - 53)"
  have d1: "1 \<le> d" by (simp add: d_def)
  have a: "2 ^ nat (bitlen i - 1) \<le> i"
    using bitlen_bounds [of i] assms by simp
  have b: "(2::int) ^ nat (bitlen i - 53) \<le> 2 ^ nat (bitlen i - 1)"
    by (rule power_increasing) simp_all
  have "d \<le> i" unfolding d_def using b a by (rule order_trans)
  then have "d div d \<le> i div d"
    using d1 by (intro zdiv_mono1) simp_all
  then have q1: "1 \<le> i div d" using d1 by simp
  have "1 * 1 \<le> (i div d) * d"
    using q1 d1 by (intro mult_mono) simp_all
  moreover have "1 * 1 \<le> (i div d + 1) * d"
    using q1 d1 by (intro mult_mono) simp_all
  moreover have "\<bar>i\<bar> = i" using assms by simp
  ultimately show ?thesis
    unfolding d_def by (simp add: round_to_even_def Let_def)
qed

lemma float64_of_small: "\<bar>sint n\<bar> \<le> 2 ^ 53 \<Longrightarrow> float64_of n = real_of_int (sint n)"
  by (simp only: float64_of_def Let_def round_to_even_exact)

lemma float64_of_nonneg: "0 \<le>s n \<Longrightarrow> 0 \<le> float64_of n"
proof -
  assume "0 \<le>s n"
  then have "0 \<le> sint n" by (simp add: word_sle_eq)
  then have "0 \<le> round_to_even (sint n) (2 ^ nat (bitlen \<bar>sint n\<bar> - 53))"
    by (rule round_to_even_nonneg) simp
  then show ?thesis unfolding float64_of_def Let_def by (simp only: of_int_0_le_iff)
qed

lemma float64_of_ge_1: "0 <s n \<Longrightarrow> 1 \<le> float64_of n"
proof -
  assume "0 <s n"
  then have "1 \<le> sint n" by (simp add: word_sless_alt)
  then have "1 \<le> round_to_even (sint n) (2 ^ nat (bitlen \<bar>sint n\<bar> - 53))"
    by (rule round_to_even_ge_1)
  then have "real_of_int 1 \<le> real_of_int (round_to_even (sint n) (2 ^ nat (bitlen \<bar>sint n\<bar> - 53)))"
    by (simp only: of_int_le_iff)
  then show ?thesis unfolding float64_of_def Let_def by simp
qed

lemma float64_of_pos: "0 <s n \<Longrightarrow> 0 < float64_of n"
  using float64_of_ge_1 [of n] by simp

lemma float64_of_1 [simp]: "float64_of 1 = 1"
  by (simp add: float64_of_small)

lemma TryConsume_well_formed:
  assumes "well_formed_bucket tb" and "0 \<le>s n"
  shows "well_formed_bucket (fst (TryConsume tb n now))"
proof -
  have r: "well_formed_bucket (refill tb now)"
    using assms(1) by (rule refill_well_formed)
  have n: "0 \<le> float64_of n"
    using assms(2) by (rule float64_of_nonneg)
  show ?thesis
    using r n by (auto simp: TryConsume_def Let_def well_formed_bucket_def level_in_range_def)
qed

lemma GetRemainingTokens_well_formed:
  "well_formed_bucket tb \<Longrightarrow> well_formed_bucket (fst (GetRemainingTokens tb now))"
  by (simp add: GetRemainingTokens_def Let_def refill_well_formed)

lemma bucket_step_well_formed:
  "well_formed_bucket tb \<Longrightarrow> nonneg_amount c \<Longrightarrow> well_formed_bucket (bucket_step tb c)"
  by (cases c) (simp_all add: TryConsume_well_formed GetRemainingTokens_well_formed)

lemma bucket_calls_well_formed:
  "well_formed_bucket tb \<Longrightarrow> \<forall>c\<in>set cs. nonneg_amount c \<Longrightarrow> well_formed_bucket (bucket_calls tb cs)"
  unfolding bucket_calls_def
  by (induction cs arbitrary: tb) (simp_all add: bucket_step_well_formed)

lemma TryConsume_failed: "\<not> snd (TryConsume tb n now) \<Longrightarrow> fst (TryConsume tb n now) = refill tb now"
  by (simp add: TryConsume_def Let_def split: if_splits)

lemma NewTokenBucket_well_formed:
  "0 \<le>s c \<Longrightarrow> 0 \<le>s r \<Longrightarrow> well_formed_bucket (NewTokenBucket c r now)"
  by (simp add: NewTokenBucket_def well_formed_bucket_def level_in_range_def float64_of_nonneg)

lemma bucket_step_capacity: "capacity (bucket_step tb c) = capacity tb"
  by (cases c) (simp_all add: TryConsume_def GetRemainingTokens_def Let_def)

lemma bucket_calls_capacity: "capacity (bucket_calls tb cs) = capacity tb"
  unfolding bucket_calls_def
  by (induction cs arbitrary: tb) (simp_all add: bucket_step_capacity)

lemma float64_of_rounds_up: "float64_of 9007199254740995 = 9007199254740996"
proof -
  have "bitlen 9007199254740995 = 54" by code_simp
  then show ?thesis by (simp add: float64_of_def round_to_even_def Let_def)
qed

section \<open>The Manager\<close>

subsection \<open>The parts of CheckAndConsume\<close>

lemma Err_distinct [simp]: "ErrRPMExceeded \<noteq> ErrTPMExceeded" "ErrTPMExceeded \<noteq> ErrRPMExceeded"
  by (simp_all add: ErrRPMExceeded_def ErrTPMExceeded_def)

lemma updateSuccessStats_eq:
  "stats m clientID = Some s \<Longrightarrow>
   updateSuccessStats m clientID toks now
     = Inr (m\<lparr>stats := (stats m)(clientID \<mapsto> success_stats s toks now)\<rparr>)"
  by (simp add: updateSuccessStats_def success_stats_def)

lemma updateDroppedStats_eq:
  "stats m clientID = Some s \<Longrightarrow>
   updateDroppedStats m clientID reason now
     = Inr (m\<lparr>stats := (stats m)(clientID \<mapsto> dropped_stats s reason now)\<rparr>)"
  by (simp add: updateDroppedStats_def dropped_stats_def Let_def)

lemma provisioned_clients:
  "clients (provisioned m clientID clk) =
     (case clients m clientID of
        None \<Rightarrow> (clients m)(clientID \<mapsto>
                  \<lparr>config = \<lparr>ClientID = clientID, RPM = None, TPM = None, Enabled = True\<rparr>,
                   rpmBucket = None, tpmBucket = None\<rparr>)
      | Some c \<Rightarrow> clients m)"
  by (simp add: provisioned_def SetClientConfig_def Let_def split: option.splits)

lemma provisioned_stats:
  "stats (provisioned m clientID clk) =
     (case stats m clientID of
        None \<Rightarrow> (stats m)(clientID \<mapsto> newClientStats clientID
                  (if clients m clientID = None then clk AtInitStats else clk AtProvisionStats))
      | Some s \<Rightarrow> stats m)"
  by (auto simp: provisioned_def SetClientConfig_def Let_def split: option.splits)

lemma provisioned_client_Some: "\<exists>c. clients (provisioned m clientID clk) clientID = Some c"
  by (simp add: provisioned_clients split: option.splits)

lemma provisioned_stats_Some: "\<exists>s. stats (provisioned m clientID clk) clientID = Some s"
  by (simp add: provisioned_stats split: option.splits)

lemma CheckAndConsume_parts:
  assumes c: "clients (provisioned m clientID clk) clientID = Some c"
    and s: "stats (provisioned m clientID clk) clientID = Some s"
  shows "CheckAndConsume m clientID w clk =
     Inr ((provisioned m clientID clk)
            \<lparr>clients := (clients (provisioned m clientID clk))(clientID \<mapsto> fst (admit c w clk)),
             stats := (stats (provisioned m clientID clk))(clientID \<mapsto>
                     record_verdict s (snd (admit c w clk)) w (clk AtUpdateStats))\<rparr>,
          snd (admit c w clk))"
proof -
  define m2 where "m2 = provisioned m clientID clk"
  have unfold: "CheckAndConsume m clientID w clk =
     (case clients m2 clientID of
           None \<Rightarrow> Inl NilPointerDereference
         | Some client \<Rightarrow>
             (let cfg = config client
              in if \<not> Enabled cfg
                 then returning None (updateSuccessStats m2 clientID w (clk AtUpdateStats))
                 else
                   (let (client3, rpmOk) =
                          (case (RPM cfg, rpmBucket client) of
                             (Some _, Some rb) \<Rightarrow>
                               (let (rb1, ok) = TryConsume rb 1 (clk AtRpmConsume)
                                in (client\<lparr>rpmBucket := Some rb1\<rparr>, ok))
                           | _ \<Rightarrow> (client, True));
                        m3 = m2\<lparr>clients := (clients m2)(clientID \<mapsto> client3)\<rparr>
                    in if \<not> rpmOk
                       then returning (Some ErrRPMExceeded)
                              (updateDroppedStats m3 clientID ''rpm'' (clk AtUpdateStats))
                       else
                         (let (client4, tpmOk) =
                                (case (TPM cfg, tpmBucket client3) of
                                   (Some _, Some tb) \<Rightarrow>
                                     (let (tb1, ok) = TryConsume tb w (clk AtTpmConsume)
                                      in (client3\<lparr>tpmBucket := Some tb1\<rparr>, ok))
                                 | _ \<Rightarrow> (client3, True));
                              m4 = m3\<lparr>clients := (clients m3)(clientID \<mapsto> client4)\<rparr>
                          in if \<not> tpmOk
                             then returning (Some ErrTPMExceeded)
                                    (updateDroppedStats m4 clientID ''tpm'' (clk AtUpdateStats))
                             else returning None
                                    (updateSuccessStats m4 clientID w (clk AtUpdateStats))))))"
    unfolding CheckAndConsume_def provisioned_def m2_def Let_def by (simp only: not_not)
  have s2: "stats m2 clientID = Some s" using s by (simp add: m2_def)
  have c2: "clients m2 clientID = Some c" using c by (simp add: m2_def)
  have triv: "(clients m2)(clientID \<mapsto> c) = clients m2"
    using c2 by (rule map_upd_triv)
  show ?thesis
    unfolding unfold m2_def [symmetric]
    using s2 triv
    by (auto simp: c2 Let_def admit_def admit_rpm_def admit_tpm_def record_verdict_def
        returning_def updateSuccessStats_eq updateDroppedStats_eq
        split: option.splits prod.splits)
qed


lemma CheckAndConsume_result:
  obtains c s where "clients (provisioned m clientID clk) clientID = Some c"
    and "stats (provisioned m clientID clk) clientID = Some s"
    and "CheckAndConsume m clientID w clk =
     Inr ((provisioned m clientID clk)
            \<lparr>clients := (clients (provisioned m clientID clk))(clientID \<mapsto> fst (admit c w clk)),
             stats := (stats (provisioned m clientID clk))(clientID \<mapsto>
                     record_verdict s (snd (admit c w clk)) w (clk AtUpdateStats))\<rparr>,
          snd (admit c w clk))"
  using provisioned_client_Some [of m clientID clk] provisioned_stats_Some [of m clientID clk]
    CheckAndConsume_parts [of m clientID clk _ _ w]
  by blast

lemma admit_verdict:
  "snd (admit c w clk) = None \<or> snd (admit c w clk) = Some ErrRPMExceeded
   \<or> snd (admit c w clk) = Some ErrTPMExceeded"
  by (simp add: admit_def)

lemma admit_rpm_config [simp]: "config (fst (admit_rpm c clk)) = config c"
  by (simp add: admit_rpm_def split: option.splits)

lemma admit_tpm_config [simp]: "config (fst (admit_tpm c w clk)) = config c"
  by (simp add: admit_tpm_def split: option.splits)

lemma admit_config [simp]: "config (fst (admit c w clk)) = config c"
  by (simp add: admit_def)

lemma admit_rpm_buckets [simp]:
  "rpmBucket (fst (admit_rpm c clk)) = None \<longleftrightarrow> rpmBucket c = None"
  "tpmBucket (fst (admit_rpm c clk)) = tpmBucket c"
  by (simp_all add: admit_rpm_def split: option.splits)

lemma admit_tpm_buckets [simp]:
  "tpmBucket (fst (admit_tpm c w clk)) = None \<longleftrightarrow> tpmBucket c = None"
  "rpmBucket (fst (admit_tpm c w clk)) = rpmBucket c"
  by (simp_all add: admit_tpm_def split: option.splits)

lemma admit_buckets [simp]:
  "rpmBucket (fst (admit c w clk)) = None \<longleftrightarrow> rpmBucket c = None"
  "tpmBucket (fst (admit c w clk)) = None \<longleftrightarrow> tpmBucket c = None"
  by (simp_all add: admit_def)

lemma admit_buckets_match:
  "buckets_match_limits c \<Longrightarrow> buckets_match_limits (fst (admit c w clk))"
  by (simp add: buckets_match_limits_def)

lemma record_verdict_consistent:
  assumes "stats_consistent s"
    and "v = None \<or> v = Some ErrRPMExceeded \<or> v = Some ErrTPMExceeded"
  shows "stats_consistent (record_verdict s v w now)"
  using assms
  by (auto simp: stats_consistent_def record_verdict_def success_stats_def dropped_stats_def Let_def)

lemma newClientStats_consistent: "stats_consistent (newClientStats clientID now)"
  by (simp add: stats_consistent_def newClientStats_def)

subsection \<open>What the statistics readers change\<close>

lemma refreshRemaining_eq:
  "refreshRemaining c s clk =
     (c\<lparr>rpmBucket := map_option (\<lambda>b. fst (GetRemainingTokens b (clk AtRpmRemaining))) (rpmBucket c),
        tpmBucket := map_option (\<lambda>b. fst (GetRemainingTokens b (clk AtTpmRemaining))) (tpmBucket c)\<rparr>,
      s\<lparr>RPMRemaining := (case rpmBucket c of None \<Rightarrow> RPMRemaining s
                          | Some b \<Rightarrow> snd (GetRemainingTokens b (clk AtRpmRemaining))),
        TPMRemaining := (case tpmBucket c of None \<Rightarrow> TPMRemaining s
                          | Some b \<Rightarrow> snd (GetRemainingTokens b (clk AtTpmRemaining)))\<rparr>)"
proof (cases "rpmBucket c")
  case None
  then show ?thesis
    by (cases "tpmBucket c") (simp_all add: refreshRemaining_def Let_def split: prod.splits)
next
  case (Some rb)
  then show ?thesis
    by (cases "tpmBucket c") (simp_all add: refreshRemaining_def Let_def split: prod.splits)
qed

lemma refreshRemaining_config [simp]: "config (fst (refreshRemaining c s clk)) = config c"
  by (simp add: refreshRemaining_eq)

lemma refreshRemaining_buckets [simp]:
  "rpmBucket (fst (refreshRemaining c s clk)) = None \<longleftrightarrow> rpmBucket c = None"
  "tpmBucket (fst (refreshRemaining c s clk)) = None \<longleftrightarrow> tpmBucket c = None"
  by (simp_all add: refreshRemaining_eq)

lemma refreshRemaining_consistent:
  "stats_consistent s \<Longrightarrow> stats_consistent (snd (refreshRemaining c s clk))"
  by (simp add: refreshRemaining_eq stats_consistent_def)

lemma refreshRemaining_buckets_match:
  "buckets_match_limits c \<Longrightarrow> buckets_match_limits (fst (refreshRemaining c s clk))"
  by (simp add: buckets_match_limits_def)


subsection \<open>What each method does to the two maps\<close>

lemma SetClientConfig_clients:
  "clients (SetClientConfig m cfg clk) =
     (clients m)(ClientID cfg \<mapsto>
        \<lparr>config = cfg,
         rpmBucket = (case RPM cfg of
                        Some r \<Rightarrow> if 0 <s r then Some (NewTokenBucket r r (clk AtNewRpmBucket)) else None
                      | None \<Rightarrow> None),
         tpmBucket = (case TPM cfg of
                        Some t \<Rightarrow> if 0 <s t then Some (NewTokenBucket t t (clk AtNewTpmBucket)) else None
                      | None \<Rightarrow> None)\<rparr>)"
  by (simp add: SetClientConfig_def Let_def)

lemma SetClientConfig_stats:
  "stats (SetClientConfig m cfg clk) =
     (case stats m (ClientID cfg) of
        None \<Rightarrow> (stats m)(ClientID cfg \<mapsto> newClientStats (ClientID cfg) (clk AtInitStats))
      | Some s \<Rightarrow> stats m)"
  by (simp add: SetClientConfig_def Let_def)

lemma GetClientStats_clients:
  "clients (fst (GetClientStats m clientID clk)) =
     (case (stats m clientID, clients m clientID) of
        (Some s, Some c) \<Rightarrow> (clients m)(clientID \<mapsto> fst (refreshRemaining c s clk))
      | _ \<Rightarrow> clients m)"
  by (simp add: GetClientStats_def Let_def split: option.splits prod.splits)

lemma GetClientStats_stats:
  "stats (fst (GetClientStats m clientID clk)) =
     (case (stats m clientID, clients m clientID) of
        (Some s, Some c) \<Rightarrow> (stats m)(clientID \<mapsto> snd (refreshRemaining c s clk))
      | _ \<Rightarrow> stats m)"
  by (simp add: GetClientStats_def Let_def split: option.splits prod.splits)

lemma GetClientStats_value:
  "snd (GetClientStats m clientID clk) =
     (case (stats m clientID, clients m clientID) of
        (Some s, Some c) \<Rightarrow> Some (snd (refreshRemaining c s clk))
      | (Some s, None) \<Rightarrow> Some s
      | (None, _) \<Rightarrow> None)"
  by (simp add: GetClientStats_def Let_def split: option.splits prod.splits)

lemma GetAllStats_clients:
  "clients (fst (GetAllStats m clks)) clientID =
     (case (stats m clientID, clients m clientID) of
        (Some s, Some c) \<Rightarrow> Some (fst (refreshRemaining c s (clks clientID)))
      | (None, Some c) \<Rightarrow> Some c
      | (_, None) \<Rightarrow> None)"
  by (simp add: GetAllStats_def Let_def split: option.splits)

lemma GetAllStats_stats:
  "stats (fst (GetAllStats m clks)) clientID =
     (case (stats m clientID, clients m clientID) of
        (Some s, Some c) \<Rightarrow> Some (snd (refreshRemaining c s (clks clientID)))
      | (Some s, None) \<Rightarrow> Some s
      | (None, _) \<Rightarrow> None)"
  by (simp add: GetAllStats_def Let_def split: option.splits)

lemma GetAllStats_value: "snd (GetAllStats m clks) = stats (fst (GetAllStats m clks))"
  by (simp add: GetAllStats_def Let_def)

lemma DeleteClient_clients:
  "clients (fst (DeleteClient m clientID)) = (clients m)(clientID := None)"
  by (auto simp: DeleteClient_def Let_def)

lemma DeleteClient_stats:
  "stats (fst (DeleteClient m clientID)) =
     (if clients m clientID = None then stats m else (stats m)(clientID := None))"
  by (auto simp: DeleteClient_def Let_def)

lemma UpdateLatency_clients [simp]: "clients (UpdateLatency m clientID x) = clients m"
  by (simp add: UpdateLatency_def split: option.splits)

lemma UpdateLatency_stats:
  "stats (UpdateLatency m clientID x) =
     (case stats m clientID of
        None \<Rightarrow> stats m
      | Some s \<Rightarrow> (stats m)(clientID \<mapsto>
          s\<lparr>AvgLatencyMs := (if AvgLatencyMs s = 0 then x else (AvgLatencyMs s + x) / 2)\<rparr>))"
  by (simp add: UpdateLatency_def split: option.splits)

lemma CheckAndConsume_clients:
  assumes "CheckAndConsume m clientID w clk = Inr (m1, v)"
  shows "\<exists>c. clients (provisioned m clientID clk) clientID = Some c
           \<and> clients m1 = (clients (provisioned m clientID clk))(clientID \<mapsto> fst (admit c w clk))
           \<and> v = snd (admit c w clk)"
  by (rule CheckAndConsume_result [of m clientID clk w]) (use assms in auto)

lemma CheckAndConsume_stats:
  assumes "CheckAndConsume m clientID w clk = Inr (m1, v)"
  shows "\<exists>s. stats (provisioned m clientID clk) clientID = Some s
           \<and> stats m1 = (stats (provisioned m clientID clk))(clientID \<mapsto>
                 record_verdict s v w (clk AtUpdateStats))
           \<and> (v = None \<or> v = Some ErrRPMExceeded \<or> v = Some ErrTPMExceeded)"
  by (rule CheckAndConsume_result [of m clientID clk w]) (use assms admit_verdict in auto)

lemma CheckAndConsume_never_panics: "\<exists>m1 v. CheckAndConsume m clientID w clk = Inr (m1, v)"
  by (rule CheckAndConsume_result [of m clientID clk w]) blast

subsection \<open>Invariants of the reachable states\<close>

lemma exec_same_keys:
  assumes "exec m x = Inr m1"
    and "\<forall>k. (clients m k = None) = (stats m k = None)"
  shows "(clients m1 k = None) = (stats m1 k = None)"
proof (cases x)
  case (OpCheckAndConsume clientID w clk)
  then obtain v where r: "CheckAndConsume m clientID w clk = Inr (m1, v)"
    using assms(1) by (auto split: sum.splits)
  from CheckAndConsume_clients [OF r] CheckAndConsume_stats [OF r] assms(2)
  show ?thesis
    by (auto simp: provisioned_clients provisioned_stats split: option.splits if_splits)
next
  case (OpSetClientConfig cfg clk)
  then show ?thesis using assms
    by (auto simp: SetClientConfig_clients SetClientConfig_stats split: option.splits if_splits)
next
  case (OpGetClientStats clientID clk)
  then show ?thesis using assms
    by (auto simp: GetClientStats_clients GetClientStats_stats split: option.splits if_splits)
next
  case (OpGetAllStats clks)
  then show ?thesis using assms
    by (auto simp: GetAllStats_clients GetAllStats_stats split: option.splits if_splits)
next
  case (OpDeleteClient clientID)
  then show ?thesis using assms
    by (auto simp: DeleteClient_clients DeleteClient_stats split: if_splits)
next
  case (OpUpdateLatency clientID y)
  then show ?thesis using assms
    by (auto simp: UpdateLatency_stats split: option.splits if_splits)
qed (use assms in auto)

lemma reachable_same_keys: "reachable m \<Longrightarrow> (clients m k = None) = (stats m k = None)"
proof (induction arbitrary: k rule: reachable.induct)
  case fresh
  show ?case by (simp add: NewManager_def)
next
  case (call m x m1)
  then show ?case using exec_same_keys [of m x m1 k] by blast
qed


lemma exec_stats_consistent:
  assumes "exec m x = Inr m1" and "all_stats_consistent m"
  shows "all_stats_consistent m1"
proof -
  have old: "\<And>k s. stats m k = Some s \<Longrightarrow> stats_consistent s"
    using assms(2) by (simp add: all_stats_consistent_def)
  have "stats_consistent s1" if s1: "stats m1 k = Some s1" for k s1
  proof (cases x)
    case (OpCheckAndConsume clientID w clk)
    then obtain v where r: "CheckAndConsume m clientID w clk = Inr (m1, v)"
      using assms(1) by (auto split: sum.splits)
    from CheckAndConsume_stats [OF r] obtain s
      where p: "stats (provisioned m clientID clk) clientID = Some s"
        and m1: "stats m1 = (stats (provisioned m clientID clk))(clientID \<mapsto>
                   record_verdict s v w (clk AtUpdateStats))"
        and v: "v = None \<or> v = Some ErrRPMExceeded \<or> v = Some ErrTPMExceeded"
      by blast
    have prov: "stats_consistent s'" if "stats (provisioned m clientID clk) k' = Some s'" for k' s'
      using that old
      by (auto simp: provisioned_stats newClientStats_consistent split: option.splits if_splits)
    show ?thesis
    proof (cases "k = clientID")
      case True
      then have "s1 = record_verdict s v w (clk AtUpdateStats)" using s1 m1 by simp
      then show ?thesis using record_verdict_consistent [OF prov [OF p] v] by simp
    next
      case False
      then show ?thesis using s1 m1 prov by simp
    qed
  next
    case (OpSetClientConfig cfg clk)
    then show ?thesis using assms(1) s1 old
      by (auto simp: SetClientConfig_stats newClientStats_consistent split: option.splits if_splits)
  next
    case (OpGetClientStats clientID clk)
    then show ?thesis using assms(1) s1 old
      by (auto simp: GetClientStats_stats refreshRemaining_consistent split: option.splits if_splits)
  next
    case (OpGetAllStats clks)
    then show ?thesis using assms(1) s1 old
      by (auto simp: GetAllStats_stats refreshRemaining_consistent split: option.splits if_splits)
  next
    case (OpDeleteClient clientID)
    then show ?thesis using assms(1) s1 old
      by (auto simp: DeleteClient_stats split: if_splits)
  next
    case (OpUpdateLatency clientID y)
    then have "stats_consistent s1 \<or> (\<exists>s a. stats m clientID = Some s \<and> s1 = s\<lparr>AvgLatencyMs := a\<rparr>)"
      using assms(1) s1 old by (auto simp: UpdateLatency_stats split: option.splits if_splits)
    then show ?thesis using old by (auto simp: stats_consistent_def)
  qed (use assms(1) s1 old in auto)
  then show ?thesis by (simp add: all_stats_consistent_def)
qed

lemma reachable_stats_consistent: "reachable m \<Longrightarrow> all_stats_consistent m"
proof (induction rule: reachable.induct)
  case fresh
  show ?case by (simp add: all_stats_consistent_def NewManager_def)
next
  case (call m x m1)
  then show ?case using exec_stats_consistent by blast
qed

lemma new_limiter_matches:
  "buckets_match_limits
     \<lparr>config = cfg,
      rpmBucket = (case RPM cfg of
                     Some r \<Rightarrow> if 0 <s r then Some (NewTokenBucket r r t1) else None
                   | None \<Rightarrow> None),
      tpmBucket = (case TPM cfg of
                     Some t \<Rightarrow> if 0 <s t then Some (NewTokenBucket t t t2) else None
                   | None \<Rightarrow> None)\<rparr>"
  by (simp add: buckets_match_limits_def split: option.splits)

lemma exec_buckets_match:
  assumes "exec m x = Inr m1"
    and old: "\<And>k c. clients m k = Some c \<Longrightarrow> buckets_match_limits c"
    and c1: "clients m1 k = Some c1"
  shows "buckets_match_limits c1"
proof (cases x)
  case (OpCheckAndConsume clientID w clk)
  then obtain v where r: "CheckAndConsume m clientID w clk = Inr (m1, v)"
    using assms(1) by (auto split: sum.splits)
  from CheckAndConsume_clients [OF r] obtain c
    where p: "clients (provisioned m clientID clk) clientID = Some c"
      and m1: "clients m1 = (clients (provisioned m clientID clk))(clientID \<mapsto> fst (admit c w clk))"
    by blast
  have prov: "buckets_match_limits c'" if "clients (provisioned m clientID clk) k' = Some c'" for k' c'
    using that old
    by (auto simp: provisioned_clients buckets_match_limits_def split: option.splits if_splits)
  show ?thesis
  proof (cases "k = clientID")
    case True
    then have "c1 = fst (admit c w clk)" using c1 m1 by simp
    then show ?thesis using admit_buckets_match [OF prov [OF p]] by simp
  next
    case False
    then show ?thesis using c1 m1 prov by simp
  qed
next
  case (OpSetClientConfig cfg clk)
  then show ?thesis using assms(1) c1 old new_limiter_matches
    by (auto simp: SetClientConfig_clients split: if_splits)
next
  case (OpGetClientStats clientID clk)
  then show ?thesis using assms(1) c1 old
    by (auto simp: GetClientStats_clients refreshRemaining_buckets_match split: option.splits if_splits)
next
  case (OpGetAllStats clks)
  then show ?thesis using assms(1) c1 old
    by (auto simp: GetAllStats_clients refreshRemaining_buckets_match split: option.splits if_splits)
next
  case (OpDeleteClient clientID)
  then show ?thesis using assms(1) c1 old
    by (auto simp: DeleteClient_clients split: if_splits)
qed (use assms in auto)

lemma reachable_buckets_match:
  "reachable m \<Longrightarrow> clients m k = Some c \<Longrightarrow> buckets_match_limits c"
proof (induction arbitrary: k c rule: reachable.induct)
  case fresh
  then show ?case by (simp add: NewManager_def)
next
  case (call m x m1)
  show ?case
    by (rule exec_buckets_match [OF call.hyps(2) _ call.prems]) (rule call.IH)
qed

lemma run_reachable: "reachable m \<Longrightarrow> run m xs = Inr m1 \<Longrightarrow> reachable m1"
proof (induction xs arbitrary: m)
  case Nil
  then show ?case by simp
next
  case (Cons x xs)
  then show ?case by (auto split: sum.splits intro: reachable.call)
qed



lemma reachable_CheckAndConsume:
  assumes "reachable m" and "CheckAndConsume m clientID w clk = Inr (m1, v)"
  shows "reachable m1"
proof -
  have "exec m (OpCheckAndConsume clientID w clk) = Inr m1"
    using assms(2) by simp
  with assms(1) show ?thesis by (rule reachable.call)
qed

subsection \<open>The verdict and the limits\<close>

lemma admit_rpm_rejects:
  "snd (admit c w clk) = Some ErrRPMExceeded \<Longrightarrow>
   Enabled (config c) \<and> RPM (config c) \<noteq> None \<and> rpmBucket c \<noteq> None"
  by (auto simp: admit_def admit_rpm_def split: if_splits option.splits)

lemma admit_tpm_rejects:
  "snd (admit c w clk) = Some ErrTPMExceeded \<Longrightarrow>
   Enabled (config c) \<and> TPM (config c) \<noteq> None \<and> tpmBucket c \<noteq> None"
  by (auto simp: admit_def admit_tpm_def split: if_splits option.splits)

lemma CheckAndConsume_known:
  assumes "clients m clientID = Some c" and "CheckAndConsume m clientID w clk = Inr (m1, v)"
  shows "v = snd (admit c w clk) \<and> clients m1 = (clients m)(clientID \<mapsto> fst (admit c w clk))"
  using CheckAndConsume_clients [OF assms(2)] assms(1) by (auto simp: provisioned_clients)

subsection \<open>A bucket that has just been built\<close>

lemma refill_new_bucket:
  assumes "0 <s n"
  shows "refill (NewTokenBucket n n t0) t =
     \<lparr>capacity = n, tokens = float64_of n, refillRate = float64_of n / 60,
      lastRefill = (if t - t0 > 0 then t else t0)\<rparr>"
proof -
  have "0 < float64_of n" using assms by (rule float64_of_pos)
  then have "t - t0 > 0 \<Longrightarrow> 0 < (t - t0) * (float64_of n / 60)" by simp
  then show ?thesis
    by (auto simp: refill_def NewTokenBucket_def Let_def min_float_def)
qed

lemma TryConsume_new_bucket_1:
  assumes "0 <s n"
  shows "snd (TryConsume (NewTokenBucket n n t0) 1 t)"
  using float64_of_ge_1 [OF assms]
  by (simp add: TryConsume_def Let_def refill_new_bucket [OF assms])

lemma TryConsume_new_bucket_all:
  assumes "0 <s n"
  shows "TryConsume (NewTokenBucket n n t0) n t =
     (\<lparr>capacity = n, tokens = 0, refillRate = float64_of n / 60,
       lastRefill = (if t - t0 > 0 then t else t0)\<rparr>, True)"
  by (simp add: TryConsume_def Let_def refill_new_bucket [OF assms])

lemma TryConsume_empty_bucket:
  assumes "0 <s n" and "t < t1 + 60"
  shows "\<not> snd (TryConsume \<lparr>capacity = n, tokens = 0, refillRate = float64_of n / 60,
                            lastRefill = t1\<rparr> n t)"
proof -
  have pos: "0 < float64_of n" using assms(1) by (rule float64_of_pos)
  have "(t - t1) * (float64_of n / 60) < float64_of n"
  proof -
    have "(t - t1) * (float64_of n / 60) = ((t - t1) / 60) * float64_of n" by simp
    also have "\<dots> < 1 * float64_of n"
      using assms(2) pos by (intro mult_strict_right_mono) simp_all
    finally show ?thesis by simp
  qed
  then show ?thesis
    using pos by (simp add: TryConsume_def refill_def Let_def min_float_def)
qed

subsection \<open>Calls that keep a statistics record\<close>

lemma remaining_same: "s = s\<lparr>RPMRemaining := RPMRemaining s, TPMRemaining := TPMRemaining s\<rparr>"
  by simp

lemma refreshRemaining_only_remaining:
  "\<exists>a b. snd (refreshRemaining c s clk) = s\<lparr>RPMRemaining := a, TPMRemaining := b\<rparr>"
  unfolding refreshRemaining_eq snd_conv by blast

lemma exec_keeps_record:
  assumes "exec m x = Inr m1" and "keeps_record k x" and "stats m k = Some s"
  shows "\<exists>a b. stats m1 k = Some (s\<lparr>RPMRemaining := a, TPMRemaining := b\<rparr>)"
proof (cases x)
  case (OpSetClientConfig cfg clk)
  then have "stats m1 k = Some s"
    using assms by (auto simp: SetClientConfig_stats split: option.splits)
  then show ?thesis using remaining_same [of s] by metis
next
  case (OpGetClientStats clientID clk)
  show ?thesis
  proof (cases "clientID = k \<and> clients m k \<noteq> None")
    case True
    then obtain c where "clients m k = Some c" by auto
    then have "stats m1 k = Some (snd (refreshRemaining c s clk))"
      using True OpGetClientStats assms by (auto simp: GetClientStats_stats)
    then show ?thesis using refreshRemaining_only_remaining [of c s clk] by auto
  next
    case False
    then have "stats m1 k = Some s"
      using OpGetClientStats assms by (auto simp: GetClientStats_stats split: option.splits)
    then show ?thesis using remaining_same [of s] by metis
  qed
next
  case (OpGetAllStats clks)
  show ?thesis
  proof (cases "clients m k")
    case None
    then have "stats m1 k = Some s"
      using OpGetAllStats assms by (auto simp: GetAllStats_stats)
    then show ?thesis using remaining_same [of s] by metis
  next
    case (Some c)
    then have "stats m1 k = Some (snd (refreshRemaining c s (clks k)))"
      using OpGetAllStats assms by (auto simp: GetAllStats_stats)
    then show ?thesis using refreshRemaining_only_remaining [of c s "clks k"] by auto
  qed
next
  case (OpDeleteClient clientID)
  then have "stats m1 k = Some s"
    using assms by (auto simp: DeleteClient_stats)
  then show ?thesis using remaining_same [of s] by metis
next
  case OpGetClientConfig
  then have "stats m1 k = Some s" using assms by auto
  then show ?thesis using remaining_same [of s] by metis
next
  case OpGetAllClients
  then have "stats m1 k = Some s" using assms by auto
  then show ?thesis using remaining_same [of s] by metis
qed (use assms in auto)

lemma run_keeps_record:
  assumes "run m xs = Inr m1" and "\<forall>x\<in>set xs. keeps_record k x" and "stats m k = Some s"
  shows "\<exists>a b. stats m1 k = Some (s\<lparr>RPMRemaining := a, TPMRemaining := b\<rparr>)"
  using assms
proof (induction xs arbitrary: m s)
  case Nil
  then show ?case using remaining_same [of s] by (metis run.simps(1) sum.inject(2))
next
  case (Cons x xs)
  then obtain m' where e: "exec m x = Inr m'" and r: "run m' xs = Inr m1"
    by (auto split: sum.splits)
  from exec_keeps_record [OF e _ Cons.prems(3)] Cons.prems(2)
  obtain a b where "stats m' k = Some (s\<lparr>RPMRemaining := a, TPMRemaining := b\<rparr>)"
    by auto
  from Cons.IH [OF r _ this] Cons.prems(2)
  show ?case by auto
qed

lemma read_stats_value:
  assumes "stats m k = Some s"
  shows "\<exists>a b. snd (read_stats m k r) = Some (s\<lparr>RPMRemaining := a, TPMRemaining := b\<rparr>)"
proof (cases "clients m k")
  case None
  then have "snd (read_stats m k r) = Some s"
    using assms by (cases r) (simp_all add: GetClientStats_value GetAllStats_value GetAllStats_stats)
  then show ?thesis using remaining_same [of s] by metis
next
  case (Some c)
  then have "\<exists>clk. snd (read_stats m k r) = Some (snd (refreshRemaining c s clk))"
    using assms by (cases r) (auto simp: GetClientStats_value GetAllStats_value GetAllStats_stats)
  then show ?thesis using refreshRemaining_only_remaining [of c s] by auto
qed

lemma read_stats_stored: "stats (fst (read_stats m k r)) k = snd (read_stats m k r)"
proof (cases r)
  case (ByGetClientStats clk)
  then show ?thesis
    by (simp add: GetClientStats_value GetClientStats_stats split: option.splits)
next
  case (ByGetAllStats clks)
  then show ?thesis by (simp add: GetAllStats_value)
qed

lemma counters_remaining [simp]:
  "counters (s\<lparr>RPMRemaining := a, TPMRemaining := b\<rparr>) = counters s"
  by (simp add: counters_def)

subsection \<open>A call that runs alone\<close>

text \<open>
  When no other call runs between its sections, \<open>CheckAndConsume\<close> returns a Manager
  and a verdict for every Manager, client identifier, weight and clock, and the verdict
  is nil (admitted), \<open>ErrRPMExceeded\<close> or \<open>ErrTPMExceeded\<close>. For a client that is
  unknown in a reachable state it admits, and afterwards the client has an enabled
  configuration with no limit and no bucket and the zeroed statistics record with this
  one success counted.
\<close>

lemma CheckAndConsume_alone_decides:
  "(\<exists>m1 v. CheckAndConsume m clientID w clk = Inr (m1, v)
       \<and> (v = None \<or> v = Some ErrRPMExceeded \<or> v = Some ErrTPMExceeded))
   \<and> Type ErrRPMExceeded = ''rpm_exceeded'' \<and> Type ErrTPMExceeded = ''tpm_exceeded''
   \<and> (reachable m \<and> clients m clientID = None \<longrightarrow>
        (\<exists>m1. CheckAndConsume m clientID w clk = Inr (m1, None)
           \<and> clients m1 clientID =
               Some \<lparr>config = \<lparr>ClientID = clientID, RPM = None, TPM = None, Enabled = True\<rparr>,
                     rpmBucket = None, tpmBucket = None\<rparr>
           \<and> stats m1 clientID =
               Some \<lparr>StatsClientID = clientID, TotalRequests = 1, SuccessRequests = 1,
                     DroppedRequests = 0, RPMDropped = 0, TPMDropped = 0, TokensUsed = w,
                     RPMRemaining = 0, TPMRemaining = 0, LastRequestTime = clk AtUpdateStats,
                     AvgLatencyMs = 0\<rparr>
           \<and> GetClientConfig m1 clientID =
               Some \<lparr>ClientID = clientID, RPM = None, TPM = None, Enabled = True\<rparr>))"
proof (intro conjI impI)
  obtain m1 v where r: "CheckAndConsume m clientID w clk = Inr (m1, v)"
    using CheckAndConsume_never_panics by blast
  from CheckAndConsume_stats [OF r] r
  show "\<exists>m1 v. CheckAndConsume m clientID w clk = Inr (m1, v)
       \<and> (v = None \<or> v = Some ErrRPMExceeded \<or> v = Some ErrTPMExceeded)"
    by blast
  show "Type ErrRPMExceeded = ''rpm_exceeded''" by (simp add: ErrRPMExceeded_def)
  show "Type ErrTPMExceeded = ''tpm_exceeded''" by (simp add: ErrTPMExceeded_def)
  assume a: "reachable m \<and> clients m clientID = None"
  then have nos: "stats m clientID = None"
    using reachable_same_keys [of m clientID] by simp
  define c0 where "c0 = \<lparr>config = \<lparr>ClientID = clientID, RPM = None, TPM = None, Enabled = True\<rparr>,
                     rpmBucket = None, tpmBucket = None\<rparr>"
  have pc: "clients (provisioned m clientID clk) clientID = Some c0"
    using a by (simp add: provisioned_clients c0_def)
  have ps: "stats (provisioned m clientID clk) clientID = Some (newClientStats clientID (clk AtInitStats))"
    using a nos by (simp add: provisioned_stats)
  have adm: "admit c0 w clk = (c0, None)"
    by (simp add: admit_def admit_rpm_def admit_tpm_def c0_def)
  have rec: "record_verdict (newClientStats clientID (clk AtInitStats)) None w (clk AtUpdateStats) =
      \<lparr>StatsClientID = clientID, TotalRequests = 1, SuccessRequests = 1,
       DroppedRequests = 0, RPMDropped = 0, TPMDropped = 0, TokensUsed = w,
       RPMRemaining = 0, TPMRemaining = 0, LastRequestTime = clk AtUpdateStats,
       AvgLatencyMs = 0\<rparr>"
    by (simp add: record_verdict_def success_stats_def newClientStats_def)
  show "\<exists>m1. CheckAndConsume m clientID w clk = Inr (m1, None)
           \<and> clients m1 clientID =
               Some \<lparr>config = \<lparr>ClientID = clientID, RPM = None, TPM = None, Enabled = True\<rparr>,
                     rpmBucket = None, tpmBucket = None\<rparr>
           \<and> stats m1 clientID =
               Some \<lparr>StatsClientID = clientID, TotalRequests = 1, SuccessRequests = 1,
                     DroppedRequests = 0, RPMDropped = 0, TPMDropped = 0, TokensUsed = w,
                     RPMRemaining = 0, TPMRemaining = 0, LastRequestTime = clk AtUpdateStats,
                     AvgLatencyMs = 0\<rparr>
           \<and> GetClientConfig m1 clientID =
               Some \<lparr>ClientID = clientID, RPM = None, TPM = None, Enabled = True\<rparr>"
    unfolding CheckAndConsume_parts [OF pc ps] adm
    by (simp add: rec GetClientConfig_def c0_def)
qed

subsection \<open>CheckAndConsume between its locks\<close>

lemma manager_of_stats [simp]: "stats (manager_of st) = statsOf st"
  by (simp add: manager_of_def)

lemma manager_of_clients:
  "clients (manager_of st) k = (case clientPtr st k of None \<Rightarrow> None | Some a \<Rightarrow> limiterAt st a)"
  by (simp add: manager_of_def)

lemma Manager_eqI:
  fixes m m' :: Manager
  assumes "\<And>k. clients m k = clients m' k" and "stats m = stats m'"
  shows "m = m'"
proof -
  have "clients m = clients m'" using assms(1) by (rule ext)
  then show ?thesis using assms(2) by simp
qed

lemma manager_of_statsOf_update:
  "manager_of (st\<lparr>statsOf := X\<rparr>) = (manager_of st)\<lparr>stats := X\<rparr>"
  by (rule Manager_eqI) (simp_all add: manager_of_clients split: option.splits)

lemma manager_of_limiter_update:
  assumes "store_ok st" and "clientPtr st k = Some a"
  shows "manager_of (st\<lparr>limiterAt := (limiterAt st)(a \<mapsto> c)\<rparr>)
           = (manager_of st)\<lparr>clients := (clients (manager_of st))(k \<mapsto> c)\<rparr>"
  using assms
  by (intro Manager_eqI) (auto simp: manager_of_clients store_ok_def split: option.splits)

lemma store_ok_limiter_update:
  "store_ok st \<Longrightarrow> store_ok (st\<lparr>limiterAt := (limiterAt st)(a \<mapsto> c)\<rparr>)"
  by (auto simp: store_ok_def)

lemma store_ok_statsOf_update: "store_ok st \<Longrightarrow> store_ok (st\<lparr>statsOf := X\<rparr>)"
  by (simp add: store_ok_def)

lemma manager_of_store_SetClientConfig:
  assumes "store_ok st"
  shows "manager_of (store_SetClientConfig st cfg clk) = SetClientConfig (manager_of st) cfg clk"
proof -
  have "clientPtr st k = Some b \<Longrightarrow> b \<noteq> nextAddr st" for k b
    using assms by (auto simp: store_ok_def)
  then show ?thesis
    by (intro Manager_eqI)
      (auto simp: manager_of_clients store_SetClientConfig_def SetClientConfig_def Let_def
        split: option.splits)
qed

lemma store_ok_store_SetClientConfig:
  assumes "store_ok st"
  shows "store_ok (store_SetClientConfig st cfg clk)"
proof -
  let ?st = "store_SetClientConfig st cfg clk"
  have old: "\<And>k a. clientPtr st k = Some a \<Longrightarrow> a < nextAddr st \<and> limiterAt st a \<noteq> None"
    and inj: "\<And>k k' a. clientPtr st k = Some a \<Longrightarrow> clientPtr st k' = Some a \<Longrightarrow> k = k'"
    using assms by (auto simp: store_ok_def)
  have ptr: "clientPtr ?st k = (if k = ClientID cfg then Some (nextAddr st) else clientPtr st k)" for k
    by (simp add: store_SetClientConfig_def Let_def)
  have obj: "limiterAt ?st a \<noteq> None" if "a = nextAddr st \<or> limiterAt st a \<noteq> None" for a
    using that by (auto simp: store_SetClientConfig_def Let_def)
  have nxt: "nextAddr ?st = nextAddr st + 1"
    by (simp add: store_SetClientConfig_def Let_def)
  have 1: "a < nextAddr ?st \<and> limiterAt ?st a \<noteq> None" if "clientPtr ?st k = Some a" for k a
  proof (cases "k = ClientID cfg")
    case True
    then have "a = nextAddr st" using that ptr by simp
    then show ?thesis using obj nxt by simp
  next
    case False
    then have "clientPtr st k = Some a" using that ptr by simp
    from old [OF this] show ?thesis using obj nxt by simp
  qed
  have 2: "k = k'" if "clientPtr ?st k = Some a" and "clientPtr ?st k' = Some a" for k k' a
  proof -
    have "clientPtr st j = Some b \<Longrightarrow> b \<noteq> nextAddr st" for j b
      using old [of j b] by simp
    then show ?thesis
      using that inj by (auto simp: ptr split: if_splits) blast+
  qed
  show ?thesis
    unfolding store_ok_def using 1 2 by blast
qed


lemma scheduled_append:
  "scheduled clientID w clk st fr (as @ bs) =
     (case scheduled clientID w clk st fr as of
        Inl e \<Rightarrow> Inl e
      | Inr (st1, fr1) \<Rightarrow> scheduled clientID w clk st1 fr1 bs)"
proof (induction as arbitrary: st fr)
  case Nil
  show ?case by simp
next
  case (Cons x as)
  show ?case by (cases x) (simp_all add: Cons.IH split: sum.splits)
qed

lemma returned_stays:
  "f_pc fr = PcReturned v \<Longrightarrow> scheduled clientID w clk st fr (replicate n Advance) = Inr (st, fr)"
  by (induction n) (simp_all add: section_of_def)

lemma provision_sections:
  assumes "store_ok st"
  shows "\<exists>n\<le>4. \<exists>st2 fr2 a. scheduled clientID w clk st entry_frame (replicate n Advance) = Inr (st2, fr2)
           \<and> store_ok st2 \<and> manager_of st2 = provisioned (manager_of st) clientID clk
           \<and> f_pc fr2 = PcReadConfig \<and> f_client fr2 = Some a \<and> clientPtr st2 clientID = Some a"
proof (cases "clientPtr st clientID")
  case None
  define cfg where "cfg = \<lparr>ClientID = clientID, RPM = None, TPM = None, Enabled = True\<rparr>"
  define st1 where "st1 = store_SetClientConfig st cfg clk"
  define st2 where "st2 = (if statsOf st clientID = None \<and> statsOf st1 clientID = None
      then st1\<lparr>statsOf := (statsOf st1)(clientID \<mapsto> newClientStats clientID (clk AtProvisionStats))\<rparr>
      else st1)"
  have ok1: "store_ok st1"
    unfolding st1_def using assms by (rule store_ok_store_SetClientConfig)
  have ok2: "store_ok st2"
    using ok1 by (simp add: st2_def store_ok_statsOf_update)
  have m1: "manager_of st1 = SetClientConfig (manager_of st) cfg clk"
    unfolding st1_def using assms by (rule manager_of_store_SetClientConfig)
  have none: "clients (manager_of st) clientID = None"
    using None by (simp add: manager_of_clients)
  have s1: "statsOf st1 = stats (SetClientConfig (manager_of st) cfg clk)"
    using m1 manager_of_stats [of st1] by simp
  have m2: "manager_of st2 = provisioned (manager_of st) clientID clk"
    using none m1
    by (simp add: st2_def provisioned_def Let_def manager_of_statsOf_update s1 cfg_def [symmetric])
  have p1: "clientPtr st1 clientID = Some (nextAddr st)"
    by (simp add: st1_def store_SetClientConfig_def Let_def cfg_def)
  have p2: "clientPtr st2 clientID = Some (nextAddr st)"
    using p1 by (simp add: st2_def)
  have "scheduled clientID w clk st entry_frame (replicate 4 Advance) =
      Inr (st2, \<lparr>f_pc = PcReadConfig, f_client = Some (nextAddr st), f_exists = False,
                 f_statsExists = (statsOf st clientID \<noteq> None), f_config = None\<rparr>)"
    using None p1
    by (simp add: eval_nat_numeral section_of_def entry_frame_def st2_def st1_def cfg_def)
  then show ?thesis using ok2 m2 p2 by (intro exI [of _ 4]) simp
next
  case (Some a)
  define st2 where "st2 = (if statsOf st clientID = None
      then st\<lparr>statsOf := (statsOf st)(clientID \<mapsto> newClientStats clientID (clk AtProvisionStats))\<rparr>
      else st)"
  have ok2: "store_ok st2"
    using assms by (simp add: st2_def store_ok_statsOf_update)
  have "limiterAt st a \<noteq> None"
    using assms Some unfolding store_ok_def by blast
  then obtain c where c: "limiterAt st a = Some c" by auto
  have some: "clients (manager_of st) clientID = Some c"
    using Some c by (simp add: manager_of_clients)
  have m2: "manager_of st2 = provisioned (manager_of st) clientID clk"
    using some by (simp add: st2_def provisioned_def Let_def manager_of_statsOf_update)
  have p2: "clientPtr st2 clientID = Some a"
    using Some by (simp add: st2_def)
  have "scheduled clientID w clk st entry_frame (replicate 3 Advance) =
      Inr (st2, \<lparr>f_pc = PcReadConfig, f_client = Some a, f_exists = True,
                 f_statsExists = (statsOf st clientID \<noteq> None), f_config = None\<rparr>)"
    using Some
    by (auto simp: eval_nat_numeral section_of_def entry_frame_def st2_def)
  then show ?thesis using ok2 m2 p2 by (intro exI [of _ 3]) simp
qed


lemma section_ReadConfig:
  assumes "f_pc fr = PcReadConfig" and "f_client fr = Some a" and "limiterAt st a = Some c"
  shows "section_of clientID w clk st fr =
     Inr (st, fr\<lparr>f_config := Some (config c),
                  f_pc := (if \<not> Enabled (config c) then PcSuccess else PcCheckRPM)\<rparr>)"
  using assms by (simp add: section_of_def)

lemma section_CheckRPM:
  assumes "f_pc fr = PcCheckRPM" and "f_client fr = Some a" and "f_config fr = Some (config c)"
    and "limiterAt st a = Some c"
  shows "section_of clientID w clk st fr =
     Inr (st\<lparr>limiterAt := (limiterAt st)(a \<mapsto> fst (admit_rpm c clk))\<rparr>,
          fr\<lparr>f_pc := (if snd (admit_rpm c clk) then PcCheckTPM
                        else PcDropped ''rpm'' ErrRPMExceeded)\<rparr>)"
proof -
  have triv: "(limiterAt st)(a \<mapsto> c) = limiterAt st"
    using assms(4) by (rule map_upd_triv)
  show ?thesis
    using assms
    by (auto simp: section_of_def admit_rpm_def triv split: option.splits prod.splits)
qed

lemma section_CheckTPM:
  assumes "f_pc fr = PcCheckTPM" and "f_client fr = Some a" and "f_config fr = Some (config c)"
    and "limiterAt st a = Some c"
  shows "section_of clientID w clk st fr =
     Inr (st\<lparr>limiterAt := (limiterAt st)(a \<mapsto> fst (admit_tpm c w clk))\<rparr>,
          fr\<lparr>f_pc := (if snd (admit_tpm c w clk) then PcSuccess
                        else PcDropped ''tpm'' ErrTPMExceeded)\<rparr>)"
proof -
  have triv: "(limiterAt st)(a \<mapsto> c) = limiterAt st"
    using assms(4) by (rule map_upd_triv)
  show ?thesis
    using assms
    by (auto simp: section_of_def admit_tpm_def triv split: option.splits prod.splits)
qed

lemma section_Success:
  assumes "f_pc fr = PcSuccess" and "statsOf st clientID = Some s"
  shows "section_of clientID w clk st fr =
     Inr (st\<lparr>statsOf := (statsOf st)(clientID \<mapsto> success_stats s w (clk AtUpdateStats))\<rparr>,
          fr\<lparr>f_pc := PcReturned None\<rparr>)"
  using assms by (simp add: section_of_def store_update_def updateSuccessStats_eq)

lemma section_Dropped:
  assumes "f_pc fr = PcDropped reason err" and "statsOf st clientID = Some s"
  shows "section_of clientID w clk st fr =
     Inr (st\<lparr>statsOf := (statsOf st)(clientID \<mapsto> dropped_stats s reason (clk AtUpdateStats))\<rparr>,
          fr\<lparr>f_pc := PcReturned (Some err)\<rparr>)"
  using assms by (simp add: section_of_def store_update_def updateDroppedStats_eq)

lemma decide_sections:
  assumes ok: "store_ok st" and pc: "f_pc fr = PcReadConfig" and cl: "f_client fr = Some a"
    and ptr: "clientPtr st clientID = Some a" and obj: "limiterAt st a = Some c"
    and rec: "statsOf st clientID = Some s"
  shows "\<exists>n\<le>4. \<exists>st3 fr3. scheduled clientID w clk st fr (replicate n Advance) = Inr (st3, fr3)
           \<and> f_pc fr3 = PcReturned (snd (admit c w clk))
           \<and> manager_of st3 = (manager_of st)
                \<lparr>clients := (clients (manager_of st))(clientID \<mapsto> fst (admit c w clk)),
                 stats := (statsOf st)(clientID \<mapsto>
                    record_verdict s (snd (admit c w clk)) w (clk AtUpdateStats))\<rparr>"
proof -
  define fr1 where "fr1 = fr\<lparr>f_config := Some (config c),
      f_pc := (if \<not> Enabled (config c) then PcSuccess else PcCheckRPM)\<rparr>"
  have s1: "section_of clientID w clk st fr = Inr (st, fr1)"
    unfolding fr1_def using pc cl obj by (rule section_ReadConfig)
  have mc: "clients (manager_of st) clientID = Some c"
    using ptr obj by (simp add: manager_of_clients)
  show ?thesis
  proof (cases "Enabled (config c)")
    case False
    have pc1: "f_pc fr1 = PcSuccess" using False by (simp add: fr1_def)
    note s2 = section_Success [OF pc1 rec, of w clk]
    have adm: "admit c w clk = (c, None)" using False by (simp add: admit_def)
    have triv: "(clients (manager_of st))(clientID \<mapsto> c) = clients (manager_of st)"
      using mc by (rule map_upd_triv)
    have "scheduled clientID w clk st fr (replicate 2 Advance) =
        Inr (st\<lparr>statsOf := (statsOf st)(clientID \<mapsto> success_stats s w (clk AtUpdateStats))\<rparr>,
             fr1\<lparr>f_pc := PcReturned None\<rparr>)"
      by (simp add: eval_nat_numeral s1 s2)
    then show ?thesis
      by (intro exI [of _ 2])
        (simp add: adm manager_of_statsOf_update triv record_verdict_def)
  next
    case True
    define c3 where "c3 = fst (admit_rpm c clk)"
    define st3 where "st3 = st\<lparr>limiterAt := (limiterAt st)(a \<mapsto> c3)\<rparr>"
    have pc1: "f_pc fr1 = PcCheckRPM" and cl1: "f_client fr1 = Some a"
      and cf1: "f_config fr1 = Some (config c)"
      using True cl by (simp_all add: fr1_def)
    define fr2 where "fr2 = fr1\<lparr>f_pc := (if snd (admit_rpm c clk) then PcCheckTPM
                        else PcDropped ''rpm'' ErrRPMExceeded)\<rparr>"
    have s2: "section_of clientID w clk st fr1 = Inr (st3, fr2)"
      unfolding st3_def c3_def fr2_def using pc1 cl1 cf1 obj by (rule section_CheckRPM)
    have ok3: "store_ok st3"
      unfolding st3_def using ok by (rule store_ok_limiter_update)
    have m3: "manager_of st3 = (manager_of st)\<lparr>clients := (clients (manager_of st))(clientID \<mapsto> c3)\<rparr>"
      unfolding st3_def using ok ptr by (rule manager_of_limiter_update)
    have rec3: "statsOf st3 clientID = Some s" using rec by (simp add: st3_def)
    have so3: "statsOf st3 = statsOf st" by (simp add: st3_def)
    have obj3: "limiterAt st3 a = Some c3" by (simp add: st3_def)
    have ptr3: "clientPtr st3 clientID = Some a" using ptr by (simp add: st3_def)
    show ?thesis
    proof (cases "snd (admit_rpm c clk)")
      case False
      have pc2: "f_pc fr2 = PcDropped ''rpm'' ErrRPMExceeded" using False by (simp add: fr2_def)
      note s3 = section_Dropped [OF pc2 rec3, of w clk]
      have adm: "admit c w clk = (c3, Some ErrRPMExceeded)"
        using True False by (simp add: admit_def c3_def)
      have "scheduled clientID w clk st fr (replicate 3 Advance) =
          Inr (st3\<lparr>statsOf := (statsOf st3)(clientID \<mapsto> dropped_stats s ''rpm'' (clk AtUpdateStats))\<rparr>,
               fr2\<lparr>f_pc := PcReturned (Some ErrRPMExceeded)\<rparr>)"
        by (simp add: eval_nat_numeral s1 s2 s3)
      then show ?thesis
        by (intro exI [of _ 3])
          (simp add: adm manager_of_statsOf_update m3 record_verdict_def so3)
    next
      case rpm_ok: True
      define c4 where "c4 = fst (admit_tpm c3 w clk)"
      define st4 where "st4 = st3\<lparr>limiterAt := (limiterAt st3)(a \<mapsto> c4)\<rparr>"
      have cfg3: "config c3 = config c" by (simp add: c3_def)
      have pc2: "f_pc fr2 = PcCheckTPM" and cl2: "f_client fr2 = Some a"
        and cf2: "f_config fr2 = Some (config c3)"
        using rpm_ok cl1 cf1 by (simp_all add: fr2_def cfg3)
      define fr3 where "fr3 = fr2\<lparr>f_pc := (if snd (admit_tpm c3 w clk) then PcSuccess
                        else PcDropped ''tpm'' ErrTPMExceeded)\<rparr>"
      have s3: "section_of clientID w clk st3 fr2 = Inr (st4, fr3)"
        unfolding st4_def c4_def fr3_def using pc2 cl2 cf2 obj3 by (rule section_CheckTPM)
      have m4: "manager_of st4 = (manager_of st)\<lparr>clients := (clients (manager_of st))(clientID \<mapsto> c4)\<rparr>"
        unfolding st4_def using manager_of_limiter_update [OF ok3 ptr3, of c4] by (simp add: m3)
      have rec4: "statsOf st4 clientID = Some s" using rec3 by (simp add: st4_def)
      have so4: "statsOf st4 = statsOf st" by (simp add: st4_def so3)
      show ?thesis
      proof (cases "snd (admit_tpm c3 w clk)")
        case False
        have pc3: "f_pc fr3 = PcDropped ''tpm'' ErrTPMExceeded" using False by (simp add: fr3_def)
        note s4 = section_Dropped [OF pc3 rec4, of w clk]
        have adm: "admit c w clk = (c4, Some ErrTPMExceeded)"
          using True rpm_ok False by (simp add: admit_def c3_def c4_def)
        have "scheduled clientID w clk st fr (replicate 4 Advance) =
            Inr (st4\<lparr>statsOf := (statsOf st4)(clientID \<mapsto> dropped_stats s ''tpm'' (clk AtUpdateStats))\<rparr>,
                 fr3\<lparr>f_pc := PcReturned (Some ErrTPMExceeded)\<rparr>)"
          by (simp add: eval_nat_numeral s1 s2 s3 s4)
        then show ?thesis
          by (intro exI [of _ 4])
            (simp add: adm manager_of_statsOf_update m4 record_verdict_def so4)
      next
        case tpm_ok: True
        have pc3: "f_pc fr3 = PcSuccess" using tpm_ok by (simp add: fr3_def)
        note s4 = section_Success [OF pc3 rec4, of w clk]
        have adm: "admit c w clk = (c4, None)"
          using True rpm_ok tpm_ok by (simp add: admit_def c3_def c4_def)
        have "scheduled clientID w clk st fr (replicate 4 Advance) =
            Inr (st4\<lparr>statsOf := (statsOf st4)(clientID \<mapsto> success_stats s w (clk AtUpdateStats))\<rparr>,
                 fr3\<lparr>f_pc := PcReturned None\<rparr>)"
          by (simp add: eval_nat_numeral s1 s2 s3 s4)
        then show ?thesis
          by (intro exI [of _ 4])
            (simp add: adm manager_of_statsOf_update m4 record_verdict_def so4)
      qed
    qed
  qed
qed

lemma store_ok_NewStore: "store_ok NewStore"
  by (simp add: store_ok_def NewStore_def)

lemma store_ok_store_DeleteClient: "store_ok st \<Longrightarrow> store_ok (fst (store_DeleteClient st k))"
  unfolding store_ok_def store_DeleteClient_def Let_def
  by (auto split: if_splits)

lemma manager_of_store_DeleteClient:
  assumes "store_ok st"
  shows "manager_of (fst (store_DeleteClient st k)) = fst (DeleteClient (manager_of st) k)"
proof (rule Manager_eqI)
  have ex: "(clients (manager_of st) k = None) = (clientPtr st k = None)"
    using assms by (auto simp: manager_of_clients store_ok_def split: option.splits)
  show "clients (manager_of (fst (store_DeleteClient st k))) j
      = clients (fst (DeleteClient (manager_of st) k)) j" for j
    by (auto simp: manager_of_clients store_DeleteClient_def DeleteClient_clients Let_def
        split: option.splits)
  show "stats (manager_of (fst (store_DeleteClient st k))) = stats (fst (DeleteClient (manager_of st) k))"
    using ex by (auto simp: store_DeleteClient_def DeleteClient_stats Let_def)
qed

text \<open>A call that no other goroutine interrupts: its sections, run one after the other,
  end with the verdict and the Manager of \<open>CheckAndConsume\<close>.\<close>

lemma uninterrupted_CheckAndConsume:
  assumes "store_ok st"
  shows "\<exists>st1 fr1 v. scheduled clientID w clk st entry_frame (replicate 8 Advance) = Inr (st1, fr1)
           \<and> f_pc fr1 = PcReturned v
           \<and> CheckAndConsume (manager_of st) clientID w clk = Inr (manager_of st1, v)"
proof -
  from provision_sections [OF assms, of clientID w clk]
  obtain n1 st2 fr2 a where n1: "n1 \<le> 4"
    and r1: "scheduled clientID w clk st entry_frame (replicate n1 Advance) = Inr (st2, fr2)"
    and ok2: "store_ok st2"
    and m2: "manager_of st2 = provisioned (manager_of st) clientID clk"
    and pc2: "f_pc fr2 = PcReadConfig" and cl2: "f_client fr2 = Some a"
    and ptr2: "clientPtr st2 clientID = Some a"
    by blast
  have "limiterAt st2 a \<noteq> None"
    using ok2 ptr2 unfolding store_ok_def by blast
  then obtain c where obj: "limiterAt st2 a = Some c" by auto
  obtain s where "stats (provisioned (manager_of st) clientID clk) clientID = Some s"
    using provisioned_stats_Some by blast
  then have rec: "statsOf st2 clientID = Some s"
    using m2 manager_of_stats [of st2] by simp
  from decide_sections [OF ok2 pc2 cl2 ptr2 obj rec, of w clk]
  obtain n2 st3 fr3 where n2: "n2 \<le> 4"
    and r2: "scheduled clientID w clk st2 fr2 (replicate n2 Advance) = Inr (st3, fr3)"
    and pc3: "f_pc fr3 = PcReturned (snd (admit c w clk))"
    and m3: "manager_of st3 = (manager_of st2)
                \<lparr>clients := (clients (manager_of st2))(clientID \<mapsto> fst (admit c w clk)),
                 stats := (statsOf st2)(clientID \<mapsto>
                    record_verdict s (snd (admit c w clk)) w (clk AtUpdateStats))\<rparr>"
    by blast
  have pcl: "clients (provisioned (manager_of st) clientID clk) clientID = Some c"
    using ptr2 obj manager_of_clients [of st2 clientID] by (simp add: m2)
  have pst: "stats (provisioned (manager_of st) clientID clk) clientID = Some s"
    using rec manager_of_stats [of st2] by (simp add: m2)
  have so: "statsOf st2 = stats (provisioned (manager_of st) clientID clk)"
    using manager_of_stats [of st2] by (simp add: m2)
  have res: "CheckAndConsume (manager_of st) clientID w clk = Inr (manager_of st3, snd (admit c w clk))"
    unfolding CheckAndConsume_parts [OF pcl pst] m3 so m2 by simp
  have "replicate 8 Advance
      = replicate n1 Advance @ replicate n2 Advance @ replicate (8 - n1 - n2) Advance"
    using n1 n2 by (simp add: replicate_add [symmetric])
  then have "scheduled clientID w clk st entry_frame (replicate 8 Advance) = Inr (st3, fr3)"
    using r1 r2 returned_stays [OF pc3] by (simp add: scheduled_append)
  then show ?thesis using pc3 res by blast
qed

section \<open>The claims\<close>



text \<open>
  C2, as the claim states it, fails in its upper bound. The level is a \<open>float64\<close> and
  starts at \<open>float64(capacity)\<close>, and the conversion rounds a capacity of more than 53
  bits. \<open>SetClientConfig\<close> with the request limit \<open>2 ^ 53 + 3\<close> builds a bucket of
  capacity 9007199254740995 whose level is 9007199254740996; after a \<open>TryConsume\<close> of
  0 with no time elapsed the level is still 9007199254740996, above the capacity.
\<close>

theorem bucket_level_above_capacity_counterexample:
  "map_option rpmBucket (clients (SetClientConfig NewManager
      \<lparr>ClientID = ''big'', RPM = Some 9007199254740995, TPM = None, Enabled = True\<rparr> (clock_at 0)) ''big'')
     = Some (Some (NewTokenBucket 9007199254740995 9007199254740995 0))
   \<and> nonneg_amount (TryConsumeCall 0 0)
   \<and> sint (capacity (bucket_calls (NewTokenBucket 9007199254740995 9007199254740995 0)
        [TryConsumeCall 0 0])) = 9007199254740995
   \<and> tokens (bucket_calls (NewTokenBucket 9007199254740995 9007199254740995 0)
        [TryConsumeCall 0 0]) = 9007199254740996
   \<and> real_of_int (sint (capacity (bucket_calls (NewTokenBucket 9007199254740995 9007199254740995 0)
        [TryConsumeCall 0 0])))
      < tokens (bucket_calls (NewTokenBucket 9007199254740995 9007199254740995 0)
        [TryConsumeCall 0 0])"
proof -
  have b: "map_option rpmBucket (clients (SetClientConfig NewManager
      \<lparr>ClientID = ''big'', RPM = Some 9007199254740995, TPM = None, Enabled = True\<rparr> (clock_at 0)) ''big'')
     = Some (Some (NewTokenBucket 9007199254740995 9007199254740995 0))"
    by (simp add: SetClientConfig_clients word_sless_alt clock_at_def)
  have n: "nonneg_amount (TryConsumeCall 0 0)"
    by (simp add: word_sle_eq)
  have c: "sint (capacity (bucket_calls (NewTokenBucket 9007199254740995 9007199254740995 0)
        [TryConsumeCall 0 0])) = 9007199254740995"
    by (simp add: bucket_calls_capacity NewTokenBucket_def)
  have t: "tokens (bucket_calls (NewTokenBucket 9007199254740995 9007199254740995 0)
        [TryConsumeCall 0 0]) = 9007199254740996"
    by (simp add: bucket_calls_def TryConsume_def refill_def NewTokenBucket_def Let_def
        float64_of_rounds_up float64_of_small)
  show ?thesis
    unfolding c t using b n by simp
qed

text \<open>
  C2, amended. Take a bucket of the data model (level between 0 and the capacity as
  \<open>float64\<close>, refill rate not negative) and any finite sequence of \<open>TryConsume\<close> and
  \<open>GetRemainingTokens\<close> calls whose consume amounts are not negative, at any clock
  readings. After every call of the sequence the level is at least 0 and at most
  \<open>float64(capacity)\<close>; when the capacity is at most \<open>2 ^ 53\<close> that is the capacity
  itself. A \<open>TryConsume\<close> that fails leaves the bucket as the refill alone leaves it.
  \<open>NewTokenBucket\<close> builds a bucket of the data model from any capacity and rate that
  are not negative, as \<open>SetClientConfig\<close> passes them.
\<close>

theorem bucket_level_stays_in_range:
  assumes "well_formed_bucket tb" and "\<forall>c\<in>set cs. nonneg_amount c"
  shows "(\<forall>k\<le>length cs. 0 \<le> tokens (bucket_calls tb (take k cs))
            \<and> tokens (bucket_calls tb (take k cs)) \<le> float64_of (capacity (bucket_calls tb (take k cs))))
         \<and> (\<bar>sint (capacity tb)\<bar> \<le> 2 ^ 53 \<longrightarrow>
              (\<forall>k\<le>length cs. capacity (bucket_calls tb (take k cs)) = capacity tb
                 \<and> tokens (bucket_calls tb (take k cs)) \<le> real_of_int (sint (capacity tb))))
         \<and> (\<forall>b n now. \<not> snd (TryConsume b n now) \<longrightarrow> fst (TryConsume b n now) = refill b now)
         \<and> (\<forall>c r now. 0 \<le>s c \<and> 0 \<le>s r \<longrightarrow> well_formed_bucket (NewTokenBucket c r now))"
proof (intro conjI allI impI)
  have wf: "well_formed_bucket (bucket_calls tb (take k cs))" for k
  proof -
    have "\<forall>c\<in>set (take k cs). nonneg_amount c"
      using assms(2) by (meson in_set_takeD)
    with assms(1) show ?thesis by (rule bucket_calls_well_formed)
  qed
  show "0 \<le> tokens (bucket_calls tb (take k cs))" for k
    using wf [of k] by (simp add: well_formed_bucket_def level_in_range_def)
  show "tokens (bucket_calls tb (take k cs)) \<le> float64_of (capacity (bucket_calls tb (take k cs)))" for k
    using wf [of k] by (simp add: well_formed_bucket_def level_in_range_def)
  show "capacity (bucket_calls tb (take k cs)) = capacity tb" for k
    by (rule bucket_calls_capacity)
  show "tokens (bucket_calls tb (take k cs)) \<le> real_of_int (sint (capacity tb))"
    if "\<bar>sint (capacity tb)\<bar> \<le> 2 ^ 53" for k
  proof -
    have "tokens (bucket_calls tb (take k cs)) \<le> float64_of (capacity tb)"
      using wf [of k] by (simp add: well_formed_bucket_def level_in_range_def bucket_calls_capacity)
    then show ?thesis using float64_of_small [OF that] by (simp only:)
  qed
next
  fix b n now
  assume "\<not> snd (TryConsume b n now)"
  then show "fst (TryConsume b n now) = refill b now"
    by (rule TryConsume_failed)
next
  fix c r :: int64 and now :: time
  assume "0 \<le>s c \<and> 0 \<le>s r"
  then show "well_formed_bucket (NewTokenBucket c r now)"
    by (simp add: NewTokenBucket_well_formed)
qed

theorem bucket_level_stays_in_range_witness:
  "well_formed_bucket (NewTokenBucket 10 10 0)
   \<and> nonneg_amount (TryConsumeCall 4 0) \<and> nonneg_amount (GetRemainingTokensCall 30)
   \<and> nonneg_amount (TryConsumeCall 20 30)
   \<and> \<bar>sint (capacity (NewTokenBucket 10 10 0))\<bar> \<le> 2 ^ 53
   \<and> tokens (bucket_calls (NewTokenBucket 10 10 0)
        [TryConsumeCall 4 0, GetRemainingTokensCall 30, TryConsumeCall 20 30]) = 10
   \<and> 0 \<le> tokens (bucket_calls (NewTokenBucket 10 10 0)
        [TryConsumeCall 4 0, GetRemainingTokensCall 30, TryConsumeCall 20 30])
   \<and> tokens (bucket_calls (NewTokenBucket 10 10 0)
        [TryConsumeCall 4 0, GetRemainingTokensCall 30, TryConsumeCall 20 30])
       \<le> real_of_int (sint (capacity (NewTokenBucket 10 10 0)))"
proof -
  have wf: "well_formed_bucket (NewTokenBucket 10 10 0)"
    by (rule NewTokenBucket_well_formed) (simp_all add: word_sle_eq)
  have nn: "\<forall>c\<in>set [TryConsumeCall 4 0, GetRemainingTokensCall 30, TryConsumeCall 20 30]. nonneg_amount c"
    by (simp add: word_sle_eq)
  have sm: "\<bar>sint (capacity (NewTokenBucket 10 10 0))\<bar> \<le> 2 ^ 53"
    by (simp add: NewTokenBucket_def)
  have v: "tokens (bucket_calls (NewTokenBucket 10 10 0)
        [TryConsumeCall 4 0, GetRemainingTokensCall 30, TryConsumeCall 20 30]) = 10"
    by (simp add: bucket_calls_def TryConsume_def GetRemainingTokens_def refill_def
        NewTokenBucket_def float64_of_small min_float_def Let_def)
  note t = bucket_level_stays_in_range [OF wf nn]
  from t [THEN conjunct1, rule_format, of 3]
  have lo: "0 \<le> tokens (bucket_calls (NewTokenBucket 10 10 0)
        [TryConsumeCall 4 0, GetRemainingTokensCall 30, TryConsumeCall 20 30])"
    by simp
  from t [THEN conjunct2, THEN conjunct1, rule_format, OF sm, of 3]
  have hi: "tokens (bucket_calls (NewTokenBucket 10 10 0)
        [TryConsumeCall 4 0, GetRemainingTokensCall 30, TryConsumeCall 20 30])
       \<le> real_of_int (sint (capacity (NewTokenBucket 10 10 0)))"
    by simp
  have n1: "nonneg_amount (TryConsumeCall 4 0)" and n2: "nonneg_amount (GetRemainingTokensCall 30)"
    and n3: "nonneg_amount (TryConsumeCall 20 30)"
    using nn by simp_all
  show ?thesis
    by (intro conjI wf n1 n2 n3 sm v lo hi)
qed

text \<open>
  C3. The claim is that \<open>CheckAndConsume\<close> always returns a verdict, without any error
  or panic. The code does not keep it: the method gives up \<open>m.mutex\<close> after its lookup
  and later dereferences what it looked up without a check. For a configured client
  \<open>alice\<close>, a \<open>DeleteClient\<close> of another goroutine right after the lookup (l.35-38)
  removes the statistics record; the call still reads the configuration and consumes
  its request unit through the pointer it holds, and then \<open>updateSuccessStats\<close>
  (l.226-227) dereferences nil. For an unknown client \<open>carol\<close>, a
  \<open>DeleteClient\<close> between the \<open>SetClientConfig\<close> of l.42 and the second lookup
  (l.46-48) leaves \<open>client\<close> nil, and l.62 dereferences it.
\<close>

theorem CheckAndConsume_panics_after_DeleteClient:
  "scheduled ''alice'' 1 (clock_at 0)
      (store_SetClientConfig NewStore
         \<lparr>ClientID = ''alice'', RPM = Some 60, TPM = None, Enabled = True\<rparr> (clock_at 0))
      entry_frame
      [Advance, OtherDeleteClient ''alice'', Advance, Advance, Advance, Advance]
     = Inr (\<lparr>limiterAt = [0 \<mapsto> \<lparr>config = \<lparr>ClientID = ''alice'', RPM = Some 60, TPM = None, Enabled = True\<rparr>,
                                 rpmBucket = Some \<lparr>capacity = 60, tokens = 59, refillRate = 1, lastRefill = 0\<rparr>,
                                 tpmBucket = None\<rparr>],
             clientPtr = Map.empty, statsOf = Map.empty, nextAddr = 1\<rparr>,
            \<lparr>f_pc = PcCheckTPM, f_client = Some 0, f_exists = True, f_statsExists = True,
             f_config = Some \<lparr>ClientID = ''alice'', RPM = Some 60, TPM = None, Enabled = True\<rparr>\<rparr>)
   \<and> scheduled ''alice'' 1 (clock_at 0)
      (store_SetClientConfig NewStore
         \<lparr>ClientID = ''alice'', RPM = Some 60, TPM = None, Enabled = True\<rparr> (clock_at 0))
      entry_frame
      [Advance, OtherDeleteClient ''alice'', Advance, Advance, Advance, Advance, Advance, Advance]
     = Inl NilPointerDereference
   \<and> scheduled ''carol'' 1 (clock_at 0) NewStore entry_frame
      [Advance, Advance, OtherDeleteClient ''carol'', Advance, Advance, Advance]
     = Inl NilPointerDereference"
  by (simp add: section_of_def store_SetClientConfig_def store_DeleteClient_def NewStore_def
      entry_frame_def clock_at_def Let_def NewTokenBucket_def TryConsume_def refill_def
      float64_of_small word_sless_alt store_update_def updateSuccessStats_def manager_of_def
      newClientStats_def)

text \<open>
  C4. A client whose configuration has no request-rate limit is never rejected with
  \<open>ErrRPMExceeded\<close>, and one with no weight-rate limit never with \<open>ErrTPMExceeded\<close>,
  for any weight; an unknown client is admitted. In every reachable state a limiter has
  a bucket on a dimension exactly when its configuration has a limit on that dimension
  and the limit is greater than 0. So a client of a reachable state whose configured
  limit on a dimension is 0 or negative is never rejected on that dimension either.
\<close>

theorem unlimited_dimension_never_rejects:
  "(clients m clientID = Some c \<and> RPM (config c) = None
      \<and> CheckAndConsume m clientID w clk = Inr (m1, v) \<longrightarrow> v \<noteq> Some ErrRPMExceeded)
   \<and> (clients m clientID = Some c \<and> TPM (config c) = None
      \<and> CheckAndConsume m clientID w clk = Inr (m1, v) \<longrightarrow> v \<noteq> Some ErrTPMExceeded)
   \<and> (clients m clientID = None
      \<and> CheckAndConsume m clientID w clk = Inr (m1, v) \<longrightarrow> v = None)
   \<and> (reachable m \<and> clients m clientID = Some c \<longrightarrow>
        (rpmBucket c \<noteq> None \<longleftrightarrow> (\<exists>r. RPM (config c) = Some r \<and> 0 <s r))
        \<and> (tpmBucket c \<noteq> None \<longleftrightarrow> (\<exists>t. TPM (config c) = Some t \<and> 0 <s t)))
   \<and> (reachable m \<and> clients m clientID = Some c \<and> RPM (config c) = Some r \<and> \<not> 0 <s r
      \<and> CheckAndConsume m clientID w clk = Inr (m1, v) \<longrightarrow> v \<noteq> Some ErrRPMExceeded)
   \<and> (reachable m \<and> clients m clientID = Some c \<and> TPM (config c) = Some t \<and> \<not> 0 <s t
      \<and> CheckAndConsume m clientID w clk = Inr (m1, v) \<longrightarrow> v \<noteq> Some ErrTPMExceeded)"
proof (intro conjI impI)
  assume "clients m clientID = Some c \<and> RPM (config c) = None
      \<and> CheckAndConsume m clientID w clk = Inr (m1, v)"
  then show "v \<noteq> Some ErrRPMExceeded"
    using CheckAndConsume_known [of m clientID c w clk m1 v] admit_rpm_rejects [of c w clk] by auto
next
  assume "clients m clientID = Some c \<and> TPM (config c) = None
      \<and> CheckAndConsume m clientID w clk = Inr (m1, v)"
  then show "v \<noteq> Some ErrTPMExceeded"
    using CheckAndConsume_known [of m clientID c w clk m1 v] admit_tpm_rejects [of c w clk] by auto
next
  assume a: "clients m clientID = None \<and> CheckAndConsume m clientID w clk = Inr (m1, v)"
  then obtain c' where "clients (provisioned m clientID clk) clientID = Some c'"
    and "v = snd (admit c' w clk)"
    using CheckAndConsume_clients [of m clientID w clk m1 v] by blast
  then show "v = None"
    using a by (auto simp: provisioned_clients admit_def admit_rpm_def admit_tpm_def)
next
  assume "reachable m \<and> clients m clientID = Some c"
  then have "buckets_match_limits c" using reachable_buckets_match by blast
  then show "(rpmBucket c \<noteq> None) = (\<exists>r. RPM (config c) = Some r \<and> 0 <s r)"
    and "(tpmBucket c \<noteq> None) = (\<exists>t. TPM (config c) = Some t \<and> 0 <s t)"
    by (simp_all add: buckets_match_limits_def)
next
  assume a: "reachable m \<and> clients m clientID = Some c \<and> RPM (config c) = Some r \<and> \<not> 0 <s r
      \<and> CheckAndConsume m clientID w clk = Inr (m1, v)"
  then have "buckets_match_limits c" using reachable_buckets_match by blast
  then have "rpmBucket c = None" using a by (auto simp: buckets_match_limits_def)
  then show "v \<noteq> Some ErrRPMExceeded"
    using a CheckAndConsume_known [of m clientID c w clk m1 v] admit_rpm_rejects [of c w clk] by auto
next
  assume a: "reachable m \<and> clients m clientID = Some c \<and> TPM (config c) = Some t \<and> \<not> 0 <s t
      \<and> CheckAndConsume m clientID w clk = Inr (m1, v)"
  then have "buckets_match_limits c" using reachable_buckets_match by blast
  then have "tpmBucket c = None" using a by (auto simp: buckets_match_limits_def)
  then show "v \<noteq> Some ErrTPMExceeded"
    using a CheckAndConsume_known [of m clientID c w clk m1 v] admit_tpm_rejects [of c w clk] by auto
qed


theorem unlimited_dimension_never_rejects_witness:
  "reachable (after NewManager
      [OpSetClientConfig \<lparr>ClientID = ''dave'', RPM = None, TPM = Some (- 3), Enabled = True\<rparr> (clock_at 0),
       OpSetClientConfig \<lparr>ClientID = ''erin'', RPM = Some 0, TPM = None, Enabled = True\<rparr> (clock_at 0)])
   \<and> clients (after NewManager
      [OpSetClientConfig \<lparr>ClientID = ''dave'', RPM = None, TPM = Some (- 3), Enabled = True\<rparr> (clock_at 0),
       OpSetClientConfig \<lparr>ClientID = ''erin'', RPM = Some 0, TPM = None, Enabled = True\<rparr> (clock_at 0)]) ''dave''
      = Some \<lparr>config = \<lparr>ClientID = ''dave'', RPM = None, TPM = Some (- 3), Enabled = True\<rparr>,
              rpmBucket = None, tpmBucket = None\<rparr>
   \<and> clients (after NewManager
      [OpSetClientConfig \<lparr>ClientID = ''dave'', RPM = None, TPM = Some (- 3), Enabled = True\<rparr> (clock_at 0),
       OpSetClientConfig \<lparr>ClientID = ''erin'', RPM = Some 0, TPM = None, Enabled = True\<rparr> (clock_at 0)]) ''erin''
      = Some \<lparr>config = \<lparr>ClientID = ''erin'', RPM = Some 0, TPM = None, Enabled = True\<rparr>,
              rpmBucket = None, tpmBucket = None\<rparr>
   \<and> clients (after NewManager
      [OpSetClientConfig \<lparr>ClientID = ''dave'', RPM = None, TPM = Some (- 3), Enabled = True\<rparr> (clock_at 0),
       OpSetClientConfig \<lparr>ClientID = ''erin'', RPM = Some 0, TPM = None, Enabled = True\<rparr> (clock_at 0)]) ''zed''
      = None
   \<and> \<not> 0 <s (- 3 :: int64) \<and> \<not> 0 <s (0 :: int64)
   \<and> (\<exists>m1 v. CheckAndConsume (after NewManager
      [OpSetClientConfig \<lparr>ClientID = ''dave'', RPM = None, TPM = Some (- 3), Enabled = True\<rparr> (clock_at 0),
       OpSetClientConfig \<lparr>ClientID = ''erin'', RPM = Some 0, TPM = None, Enabled = True\<rparr> (clock_at 0)])
          ''dave'' 1000 (clock_at 1) = Inr (m1, v)
        \<and> v \<noteq> Some ErrRPMExceeded \<and> v \<noteq> Some ErrTPMExceeded)
   \<and> (\<exists>m1 v. CheckAndConsume (after NewManager
      [OpSetClientConfig \<lparr>ClientID = ''dave'', RPM = None, TPM = Some (- 3), Enabled = True\<rparr> (clock_at 0),
       OpSetClientConfig \<lparr>ClientID = ''erin'', RPM = Some 0, TPM = None, Enabled = True\<rparr> (clock_at 0)])
          ''erin'' 1000 (clock_at 1) = Inr (m1, v)
        \<and> v \<noteq> Some ErrRPMExceeded \<and> v \<noteq> Some ErrTPMExceeded)
   \<and> (\<exists>m1. CheckAndConsume (after NewManager
      [OpSetClientConfig \<lparr>ClientID = ''dave'', RPM = None, TPM = Some (- 3), Enabled = True\<rparr> (clock_at 0),
       OpSetClientConfig \<lparr>ClientID = ''erin'', RPM = Some 0, TPM = None, Enabled = True\<rparr> (clock_at 0)])
          ''zed'' 7 (clock_at 1) = Inr (m1, None))"
proof -
  define xs where "xs =
      [OpSetClientConfig \<lparr>ClientID = ''dave'', RPM = None, TPM = Some (- 3), Enabled = True\<rparr> (clock_at 0),
       OpSetClientConfig \<lparr>ClientID = ''erin'', RPM = Some 0, TPM = None, Enabled = True\<rparr> (clock_at 0)]"
  define m0 where "m0 = after NewManager xs"
  define cD where "cD = \<lparr>config = \<lparr>ClientID = ''dave'', RPM = None, TPM = Some (- 3), Enabled = True\<rparr>,
              rpmBucket = None, tpmBucket = None\<rparr>"
  define cE where "cE = \<lparr>config = \<lparr>ClientID = ''erin'', RPM = Some 0, TPM = None, Enabled = True\<rparr>,
              rpmBucket = None, tpmBucket = None\<rparr>"
  have run: "run NewManager xs = Inr m0"
    by (simp add: m0_def after_def xs_def)
  have r: "reachable m0"
    using reachable.fresh run by (rule run_reachable)
  have neg: "\<not> 0 <s (- 3 :: int64)" "\<not> 0 <s (0 :: int64)"
    by (simp_all add: word_sless_alt)
  have d: "clients m0 ''dave'' = Some cD"
    by (simp add: m0_def after_def xs_def cD_def SetClientConfig_clients word_sless_alt)
  have e: "clients m0 ''erin'' = Some cE"
    by (simp add: m0_def after_def xs_def cE_def SetClientConfig_clients word_sless_alt)
  have z: "clients m0 ''zed'' = None"
    by (simp add: m0_def after_def xs_def SetClientConfig_clients NewManager_def)
  obtain m1 v1 where r1: "CheckAndConsume m0 ''dave'' 1000 (clock_at 1) = Inr (m1, v1)"
    using CheckAndConsume_never_panics by blast
  obtain m2 v2 where r2: "CheckAndConsume m0 ''erin'' 1000 (clock_at 1) = Inr (m2, v2)"
    using CheckAndConsume_never_panics by blast
  obtain m3 v3 where r3: "CheckAndConsume m0 ''zed'' 7 (clock_at 1) = Inr (m3, v3)"
    using CheckAndConsume_never_panics by blast
  note thmD = unlimited_dimension_never_rejects
      [of m0 "''dave''" cD 1000 "clock_at 1" m1 v1 "0" "- 3"]
  note thmE = unlimited_dimension_never_rejects
      [of m0 "''erin''" cE 1000 "clock_at 1" m2 v2 "0" "0"]
  note thmZ = unlimited_dimension_never_rejects
      [of m0 "''zed''" cD 7 "clock_at 1" m3 v3 "0" "0"]
  have v1: "v1 \<noteq> Some ErrRPMExceeded \<and> v1 \<noteq> Some ErrTPMExceeded"
    using thmD r d r1 neg by (simp add: cD_def)
  have v2: "v2 \<noteq> Some ErrRPMExceeded \<and> v2 \<noteq> Some ErrTPMExceeded"
    using thmE r e r2 neg by (simp add: cE_def)
  have v3: "v3 = None"
    using thmZ z r3 by simp
  show ?thesis
    using r d e z neg r1 v1 r2 v2 r3 v3
    unfolding m0_def xs_def cD_def cE_def by blast
qed

text \<open>
  C5. The two equations \<open>TotalRequests = SuccessRequests + DroppedRequests\<close> and
  \<open>DroppedRequests = RPMDropped + TPMDropped\<close> (in the wrapping arithmetic of
  \<open>int64\<close>) hold in the fresh Manager; every public call that starts where they hold
  for every record ends where they hold for every record; so they hold for every record
  of every reachable state.
\<close>

theorem statistics_equations_hold:
  "all_stats_consistent NewManager
   \<and> (all_stats_consistent m \<and> exec m x = Inr m1 \<longrightarrow> all_stats_consistent m1)
   \<and> (reachable m \<and> stats m clientID = Some s \<longrightarrow>
        TotalRequests s = SuccessRequests s + DroppedRequests s
        \<and> DroppedRequests s = RPMDropped s + TPMDropped s)"
proof (intro conjI impI)
  show "all_stats_consistent NewManager"
    by (simp add: all_stats_consistent_def NewManager_def)
  show "all_stats_consistent m1" if "all_stats_consistent m \<and> exec m x = Inr m1"
    using that exec_stats_consistent by blast
  assume "reachable m \<and> stats m clientID = Some s"
  then have "stats_consistent s"
    using reachable_stats_consistent [of m] by (auto simp: all_stats_consistent_def)
  then show "TotalRequests s = SuccessRequests s + DroppedRequests s"
    and "DroppedRequests s = RPMDropped s + TPMDropped s"
    by (simp_all add: stats_consistent_def)
qed

theorem statistics_equations_hold_witness:
  "reachable (after NewManager
     [OpSetClientConfig \<lparr>ClientID = ''alice'', RPM = Some 1, TPM = None, Enabled = True\<rparr> (clock_at 0),
      OpCheckAndConsume ''alice'' 1 (clock_at 0), OpCheckAndConsume ''alice'' 1 (clock_at 0)])
   \<and> map_option counters (stats (after NewManager
     [OpSetClientConfig \<lparr>ClientID = ''alice'', RPM = Some 1, TPM = None, Enabled = True\<rparr> (clock_at 0),
      OpCheckAndConsume ''alice'' 1 (clock_at 0), OpCheckAndConsume ''alice'' 1 (clock_at 0)]) ''alice'')
     = Some (2, 1, 1, 1, 0, 1, 0)
   \<and> (2 :: int64) = 1 + 1 \<and> (1 :: int64) = 1 + 0"
proof -
  define xs where "xs =
     [OpSetClientConfig \<lparr>ClientID = ''alice'', RPM = Some 1, TPM = None, Enabled = True\<rparr> (clock_at 0),
      OpCheckAndConsume ''alice'' 1 (clock_at 0), OpCheckAndConsume ''alice'' 1 (clock_at 0)]"
  have run: "\<exists>m1. run NewManager xs = Inr m1 \<and> map_option counters (stats m1 ''alice'') = Some (2, 1, 1, 1, 0, 1, 0)"
    by (simp add: xs_def CheckAndConsume_def SetClientConfig_def NewManager_def clock_at_def Let_def
        TryConsume_def refill_def NewTokenBucket_def float64_of_small returning_def
        updateSuccessStats_def updateDroppedStats_def word_sless_alt newClientStats_def counters_def)
  then obtain m1 where m1: "run NewManager xs = Inr m1"
    and c: "map_option counters (stats m1 ''alice'') = Some (2, 1, 1, 1, 0, 1, 0)"
    by blast
  have a: "after NewManager xs = m1" using m1 by (simp add: after_def)
  have r: "reachable m1" using reachable.fresh m1 by (rule run_reachable)
  obtain s where s: "stats m1 ''alice'' = Some s" using c by auto
  from statistics_equations_hold [of m1 "OpGetAllClients" m1 "''alice''" s] r s
  have "TotalRequests s = SuccessRequests s + DroppedRequests s" by simp
  then show ?thesis using r c a by (simp add: xs_def [symmetric])
qed

text \<open>
  C6, as the claim states it, fails in its sentence about the burst. \<open>CheckAndConsume\<close>
  consults the buckets only for an enabled client, and \<open>SetClientConfig\<close> builds a
  bucket only for a limit greater than 0. After \<open>SetClientConfig\<close> with enabled =
  false and weight limit 5, two \<open>CheckAndConsume\<close> of weight 5 in a row are both
  admitted; after \<open>SetClientConfig\<close> with enabled = true and weight limit 0, two
  \<open>CheckAndConsume\<close> of weight 0 in a row are both admitted.
\<close>

theorem SetClientConfig_burst_counterexample:
  "CheckAndConsume (SetClientConfig NewManager
        \<lparr>ClientID = ''alice'', RPM = None, TPM = Some 5, Enabled = False\<rparr> (clock_at 0))
      ''alice'' 5 (clock_at 0)
     = Inr (after NewManager
        [OpSetClientConfig \<lparr>ClientID = ''alice'', RPM = None, TPM = Some 5, Enabled = False\<rparr> (clock_at 0),
         OpCheckAndConsume ''alice'' 5 (clock_at 0)], None)
   \<and> CheckAndConsume (after NewManager
        [OpSetClientConfig \<lparr>ClientID = ''alice'', RPM = None, TPM = Some 5, Enabled = False\<rparr> (clock_at 0),
         OpCheckAndConsume ''alice'' 5 (clock_at 0)])
      ''alice'' 5 (clock_at 0)
     = Inr (after NewManager
        [OpSetClientConfig \<lparr>ClientID = ''alice'', RPM = None, TPM = Some 5, Enabled = False\<rparr> (clock_at 0),
         OpCheckAndConsume ''alice'' 5 (clock_at 0), OpCheckAndConsume ''alice'' 5 (clock_at 0)], None)
   \<and> CheckAndConsume (SetClientConfig NewManager
        \<lparr>ClientID = ''bob'', RPM = None, TPM = Some 0, Enabled = True\<rparr> (clock_at 0))
      ''bob'' 0 (clock_at 0)
     = Inr (after NewManager
        [OpSetClientConfig \<lparr>ClientID = ''bob'', RPM = None, TPM = Some 0, Enabled = True\<rparr> (clock_at 0),
         OpCheckAndConsume ''bob'' 0 (clock_at 0)], None)
   \<and> CheckAndConsume (after NewManager
        [OpSetClientConfig \<lparr>ClientID = ''bob'', RPM = None, TPM = Some 0, Enabled = True\<rparr> (clock_at 0),
         OpCheckAndConsume ''bob'' 0 (clock_at 0)])
      ''bob'' 0 (clock_at 0)
     = Inr (after NewManager
        [OpSetClientConfig \<lparr>ClientID = ''bob'', RPM = None, TPM = Some 0, Enabled = True\<rparr> (clock_at 0),
         OpCheckAndConsume ''bob'' 0 (clock_at 0), OpCheckAndConsume ''bob'' 0 (clock_at 0)], None)"
  by (simp add: after_def CheckAndConsume_def SetClientConfig_def NewManager_def clock_at_def Let_def
      returning_def updateSuccessStats_def word_sless_alt newClientStats_def)

text \<open>
  C6, amended. \<open>SetClientConfig\<close> replaces the client's limiter, whatever it was, by one that
  holds the new configuration and, for each limit greater than 0, a bucket that is
  full (level = capacity = the limit, rate = limit / 60); the limiters and the
  statistics of other clients stay as they are. A statistics record that exists is left
  as it is; otherwise a zeroed one is created. For an enabled configuration with a
  weight limit \<open>L > 0\<close>: the first \<open>CheckAndConsume\<close> of weight \<open>L\<close> after
  \<open>SetClientConfig\<close> is admitted, and a second one of weight \<open>L\<close> whose weight-rate
  clock reading comes less than 60 seconds after the bucket was built and after the
  first one consumed is rejected.
\<close>

theorem SetClientConfig_resets_buckets:
  "clients (SetClientConfig m cfg clk) (ClientID cfg) =
      Some \<lparr>config = cfg,
            rpmBucket = (case RPM cfg of
                None \<Rightarrow> None
              | Some r \<Rightarrow> if 0 <s r
                  then Some \<lparr>capacity = r, tokens = float64_of r, refillRate = float64_of r / 60,
                             lastRefill = clk AtNewRpmBucket\<rparr>
                  else None),
            tpmBucket = (case TPM cfg of
                None \<Rightarrow> None
              | Some t \<Rightarrow> if 0 <s t
                  then Some \<lparr>capacity = t, tokens = float64_of t, refillRate = float64_of t / 60,
                             lastRefill = clk AtNewTpmBucket\<rparr>
                  else None)\<rparr>
   \<and> stats (SetClientConfig m cfg clk) (ClientID cfg) =
       (case stats m (ClientID cfg) of
          Some s \<Rightarrow> Some s
        | None \<Rightarrow> Some (newClientStats (ClientID cfg) (clk AtInitStats)))
   \<and> (k \<noteq> ClientID cfg \<longrightarrow>
        clients (SetClientConfig m cfg clk) k = clients m k
        \<and> stats (SetClientConfig m cfg clk) k = stats m k)
   \<and> (Enabled cfg \<and> TPM cfg = Some L \<and> 0 <s L
        \<and> clk2 AtTpmConsume < clk AtNewTpmBucket + 60
        \<and> clk2 AtTpmConsume < clk1 AtTpmConsume + 60 \<longrightarrow>
        (\<exists>m1 m2 e. CheckAndConsume (SetClientConfig m cfg clk) (ClientID cfg) L clk1 = Inr (m1, None)
            \<and> CheckAndConsume m1 (ClientID cfg) L clk2 = Inr (m2, Some e)
            \<and> (e = ErrRPMExceeded \<or> e = ErrTPMExceeded)))"
proof (intro conjI impI)
  show "clients (SetClientConfig m cfg clk) (ClientID cfg) =
      Some \<lparr>config = cfg,
            rpmBucket = (case RPM cfg of
                None \<Rightarrow> None
              | Some r \<Rightarrow> if 0 <s r
                  then Some \<lparr>capacity = r, tokens = float64_of r, refillRate = float64_of r / 60,
                             lastRefill = clk AtNewRpmBucket\<rparr>
                  else None),
            tpmBucket = (case TPM cfg of
                None \<Rightarrow> None
              | Some t \<Rightarrow> if 0 <s t
                  then Some \<lparr>capacity = t, tokens = float64_of t, refillRate = float64_of t / 60,
                             lastRefill = clk AtNewTpmBucket\<rparr>
                  else None)\<rparr>"
    by (simp add: SetClientConfig_clients NewTokenBucket_def split: option.splits)
  show "stats (SetClientConfig m cfg clk) (ClientID cfg) =
       (case stats m (ClientID cfg) of
          Some s \<Rightarrow> Some s
        | None \<Rightarrow> Some (newClientStats (ClientID cfg) (clk AtInitStats)))"
    by (simp add: SetClientConfig_stats split: option.splits)
  show "clients (SetClientConfig m cfg clk) k = clients m k" if "k \<noteq> ClientID cfg"
    using that by (simp add: SetClientConfig_clients)
  show "stats (SetClientConfig m cfg clk) k = stats m k" if "k \<noteq> ClientID cfg"
    using that by (simp add: SetClientConfig_stats split: option.splits)
next
  assume a: "Enabled cfg \<and> TPM cfg = Some L \<and> 0 <s L
        \<and> clk2 AtTpmConsume < clk AtNewTpmBucket + 60
        \<and> clk2 AtTpmConsume < clk1 AtTpmConsume + 60"
  define m0 where "m0 = SetClientConfig m cfg clk"
  define rb0 where "rb0 = (case RPM cfg of
                        Some r \<Rightarrow> if 0 <s r then Some (NewTokenBucket r r (clk AtNewRpmBucket)) else None
                      | None \<Rightarrow> None)"
  define c0 where "c0 = \<lparr>config = cfg, rpmBucket = rb0,
      tpmBucket = Some (NewTokenBucket L L (clk AtNewTpmBucket))\<rparr>"
  define t1 where "t1 = (if clk1 AtTpmConsume - clk AtNewTpmBucket > 0
      then clk1 AtTpmConsume else clk AtNewTpmBucket)"
  define tb1 where "tb1 = \<lparr>capacity = L, tokens = 0, refillRate = float64_of L / 60, lastRefill = t1\<rparr>"
  have c0: "clients m0 (ClientID cfg) = Some c0"
    using a by (simp add: m0_def c0_def rb0_def SetClientConfig_clients)
  have rpm1: "snd (admit_rpm c0 clk1)"
    by (auto simp: admit_rpm_def c0_def rb0_def TryConsume_new_bucket_1 split: option.splits if_splits)
  have tpm1: "admit_tpm (fst (admit_rpm c0 clk1)) L clk1 =
      ((fst (admit_rpm c0 clk1))\<lparr>tpmBucket := Some tb1\<rparr>, True)"
    using a by (simp add: admit_tpm_def c0_def TryConsume_new_bucket_all tb1_def t1_def)
  define c1 where "c1 = (fst (admit_rpm c0 clk1))\<lparr>tpmBucket := Some tb1\<rparr>"
  have en0: "Enabled (config c0)"
    using a by (simp add: c0_def)
  have adm1: "admit c0 L clk1 = (c1, None)"
    using en0 rpm1 by (simp add: admit_def tpm1 c1_def)
  obtain m1 v1 where r1: "CheckAndConsume m0 (ClientID cfg) L clk1 = Inr (m1, v1)"
    using CheckAndConsume_never_panics by blast
  from CheckAndConsume_known [OF c0 r1] adm1
  have v1: "v1 = None" and cl1: "clients m1 (ClientID cfg) = Some c1"
    by simp_all
  have en1: "Enabled (config c1)" and tp1: "TPM (config c1) = Some L"
    using a by (simp_all add: c1_def c0_def)
  have late: "clk2 AtTpmConsume < t1 + 60"
    using a by (simp add: t1_def)
  have empty: "\<not> snd (TryConsume tb1 L (clk2 AtTpmConsume))"
    unfolding tb1_def using a late by (intro TryConsume_empty_bucket) simp_all
  have tpm2: "\<not> snd (admit_tpm (fst (admit_rpm c1 clk2)) L clk2)"
    using empty tp1 by (simp add: admit_tpm_def c1_def)
  have adm2: "snd (admit c1 L clk2) = Some ErrRPMExceeded \<or> snd (admit c1 L clk2) = Some ErrTPMExceeded"
    using en1 tpm2 by (simp add: admit_def)
  obtain m2 v2 where r2: "CheckAndConsume m1 (ClientID cfg) L clk2 = Inr (m2, v2)"
    using CheckAndConsume_never_panics by blast
  from CheckAndConsume_known [OF cl1 r2] adm2
  have "v2 = Some ErrRPMExceeded \<or> v2 = Some ErrTPMExceeded" by simp
  then show "\<exists>m1 m2 e. CheckAndConsume (SetClientConfig m cfg clk) (ClientID cfg) L clk1 = Inr (m1, None)
            \<and> CheckAndConsume m1 (ClientID cfg) L clk2 = Inr (m2, Some e)
            \<and> (e = ErrRPMExceeded \<or> e = ErrTPMExceeded)"
    using r1 v1 r2 unfolding m0_def by blast
qed


theorem SetClientConfig_resets_buckets_witness:
  "Enabled \<lparr>ClientID = ''bob'', RPM = Some 5, TPM = Some 100, Enabled = True\<rparr>
   \<and> TPM \<lparr>ClientID = ''bob'', RPM = Some 5, TPM = Some 100, Enabled = True\<rparr> = Some 100
   \<and> 0 <s (100 :: int64)
   \<and> clock_at 30 AtTpmConsume < clock_at 0 AtNewTpmBucket + 60
   \<and> clock_at 30 AtTpmConsume < clock_at 0 AtTpmConsume + 60
   \<and> ''zed'' \<noteq> ''bob''
   \<and> clients (SetClientConfig NewManager
        \<lparr>ClientID = ''bob'', RPM = Some 5, TPM = Some 100, Enabled = True\<rparr> (clock_at 0)) ''zed'' = None
   \<and> clients (SetClientConfig NewManager
        \<lparr>ClientID = ''bob'', RPM = Some 5, TPM = Some 100, Enabled = True\<rparr> (clock_at 0)) ''bob''
      = Some \<lparr>config = \<lparr>ClientID = ''bob'', RPM = Some 5, TPM = Some 100, Enabled = True\<rparr>,
              rpmBucket = Some \<lparr>capacity = 5, tokens = 5, refillRate = 5 / 60, lastRefill = 0\<rparr>,
              tpmBucket = Some \<lparr>capacity = 100, tokens = 100, refillRate = 100 / 60, lastRefill = 0\<rparr>\<rparr>
   \<and> (\<exists>m1 m2 e. CheckAndConsume (SetClientConfig NewManager
          \<lparr>ClientID = ''bob'', RPM = Some 5, TPM = Some 100, Enabled = True\<rparr> (clock_at 0))
            ''bob'' 100 (clock_at 0) = Inr (m1, None)
        \<and> CheckAndConsume m1 ''bob'' 100 (clock_at 30) = Inr (m2, Some e)
        \<and> (e = ErrRPMExceeded \<or> e = ErrTPMExceeded))"
proof -
  define cfg where "cfg = \<lparr>ClientID = ''bob'', RPM = Some 5, TPM = Some (100 :: int64), Enabled = True\<rparr>"
  have pos: "0 <s (100 :: int64)" "0 <s (5 :: int64)" by (simp_all add: word_sless_alt)
  have h: "Enabled cfg \<and> TPM cfg = Some 100 \<and> 0 <s (100 :: int64)
      \<and> clock_at 30 AtTpmConsume < clock_at 0 AtNewTpmBucket + 60
      \<and> clock_at 30 AtTpmConsume < clock_at 0 AtTpmConsume + 60"
    using pos by (simp add: cfg_def clock_at_def)
  note t = SetClientConfig_resets_buckets
      [of NewManager cfg "clock_at 0" "''zed''" 100 "clock_at 30" "clock_at 0"]
  have id: "ClientID cfg = ''bob''" by (simp add: cfg_def)
  have z: "clients (SetClientConfig NewManager cfg (clock_at 0)) ''zed'' = None"
    using t by (simp add: id NewManager_def)
  have b: "clients (SetClientConfig NewManager cfg (clock_at 0)) ''bob''
      = Some \<lparr>config = cfg,
              rpmBucket = Some \<lparr>capacity = 5, tokens = 5, refillRate = 5 / 60, lastRefill = 0\<rparr>,
              tpmBucket = Some \<lparr>capacity = 100, tokens = 100, refillRate = 100 / 60, lastRefill = 0\<rparr>\<rparr>"
    using t [THEN conjunct1] pos by (simp add: cfg_def float64_of_small clock_at_def)
  have d: "\<exists>m1 m2 e. CheckAndConsume (SetClientConfig NewManager cfg (clock_at 0))
            ''bob'' 100 (clock_at 0) = Inr (m1, None)
        \<and> CheckAndConsume m1 ''bob'' 100 (clock_at 30) = Inr (m2, Some e)
        \<and> (e = ErrRPMExceeded \<or> e = ErrTPMExceeded)"
    using t [THEN conjunct2, THEN conjunct2, THEN conjunct2, rule_format, OF h] by (simp add: id)
  show ?thesis
    using h z b d unfolding cfg_def by simp
qed

text \<open>
  C7, as the claim states it, fails. The claim: with sample \<open>x\<close> the average becomes
  \<open>(avg + x) / 2\<close> whenever an average already exists, and \<open>x\<close> otherwise. The code
  keeps no mark for "an average exists": it tests whether the stored average is 0. A
  client whose only sample so far is 0 (a request answered in less than a millisecond)
  has an average, namely 0; the next sample 10 makes the stored average 10, where the
  claim gives \<open>(0 + 10) / 2 = 5\<close>.
\<close>

theorem UpdateLatency_zero_average_counterexample:
  "map_option AvgLatencyMs (stats (after NewManager
      [OpSetClientConfig \<lparr>ClientID = ''alice'', RPM = None, TPM = None, Enabled = True\<rparr> (clock_at 0),
       OpUpdateLatency ''alice'' 0]) ''alice'') = Some 0
   \<and> recordLatency_spec None 0 = Some 0
   \<and> map_option AvgLatencyMs (stats (after NewManager
      [OpSetClientConfig \<lparr>ClientID = ''alice'', RPM = None, TPM = None, Enabled = True\<rparr> (clock_at 0),
       OpUpdateLatency ''alice'' 0, OpUpdateLatency ''alice'' 10]) ''alice'') = Some 10
   \<and> recordLatency_spec (recordLatency_spec None 0) 10 = Some 5
   \<and> map_option AvgLatencyMs (stats (after NewManager
      [OpSetClientConfig \<lparr>ClientID = ''alice'', RPM = None, TPM = None, Enabled = True\<rparr> (clock_at 0),
       OpUpdateLatency ''alice'' 0, OpUpdateLatency ''alice'' 10]) ''alice'')
     \<noteq> recordLatency_spec (recordLatency_spec None 0) 10"
  by (simp add: after_def recordLatency_spec_def UpdateLatency_def SetClientConfig_def
      NewManager_def newClientStats_def Let_def)

text \<open>
  C7, amended. \<open>UpdateLatency\<close> with sample \<open>x\<close> changes nothing when the client has
  no statistics record. Otherwise it changes only the stored average of that record:
  to \<open>x\<close> when the stored average is 0 (as in a new record), and to
  \<open>(avg + x) / 2\<close> when the stored average is not 0.
\<close>

theorem UpdateLatency_smoothing:
  "(stats m clientID = None \<longrightarrow> UpdateLatency m clientID x = m)
   \<and> (stats m clientID = Some s \<longrightarrow>
        UpdateLatency m clientID x =
          m\<lparr>stats := (stats m)(clientID \<mapsto>
              s\<lparr>AvgLatencyMs := (if AvgLatencyMs s = 0 then x else (AvgLatencyMs s + x) / 2)\<rparr>)\<rparr>)"
  by (simp add: UpdateLatency_def)

theorem UpdateLatency_smoothing_witness:
  "stats NewManager ''alice'' = None
   \<and> UpdateLatency NewManager ''alice'' 7 = NewManager
   \<and> stats (SetClientConfig NewManager
        \<lparr>ClientID = ''alice'', RPM = None, TPM = None, Enabled = True\<rparr> (clock_at 0)) ''alice''
       = Some (newClientStats ''alice'' 0)
   \<and> map_option AvgLatencyMs (stats (UpdateLatency (SetClientConfig NewManager
        \<lparr>ClientID = ''alice'', RPM = None, TPM = None, Enabled = True\<rparr> (clock_at 0)) ''alice'' 8) ''alice'')
       = Some 8
   \<and> stats (UpdateLatency (SetClientConfig NewManager
        \<lparr>ClientID = ''alice'', RPM = None, TPM = None, Enabled = True\<rparr> (clock_at 0)) ''alice'' 8) ''alice''
       = Some ((newClientStats ''alice'' 0)\<lparr>AvgLatencyMs := 8\<rparr>)
   \<and> map_option AvgLatencyMs (stats (UpdateLatency (UpdateLatency (SetClientConfig NewManager
        \<lparr>ClientID = ''alice'', RPM = None, TPM = None, Enabled = True\<rparr> (clock_at 0)) ''alice'' 8)
          ''alice'' 4) ''alice'')
       = Some 6"
proof -
  define m0 where "m0 = SetClientConfig NewManager
        \<lparr>ClientID = ''alice'', RPM = None, TPM = None, Enabled = True\<rparr> (clock_at 0)"
  have n: "stats NewManager ''alice'' = None" by (simp add: NewManager_def)
  have s0: "stats m0 ''alice'' = Some (newClientStats ''alice'' 0)"
    by (simp add: m0_def SetClientConfig_stats NewManager_def clock_at_def)
  from UpdateLatency_smoothing [of NewManager "''alice''" 7] n
  have u0: "UpdateLatency NewManager ''alice'' 7 = NewManager" by simp
  from UpdateLatency_smoothing [of m0 "''alice''" 8 "newClientStats ''alice'' 0"] s0
  have u1: "UpdateLatency m0 ''alice'' 8 =
      m0\<lparr>stats := (stats m0)(''alice'' \<mapsto> (newClientStats ''alice'' 0)\<lparr>AvgLatencyMs := 8\<rparr>)\<rparr>"
    by (simp add: newClientStats_def)
  then have s1: "stats (UpdateLatency m0 ''alice'' 8) ''alice''
      = Some ((newClientStats ''alice'' 0)\<lparr>AvgLatencyMs := 8\<rparr>)"
    by simp
  from UpdateLatency_smoothing [of "UpdateLatency m0 ''alice'' 8" "''alice''" 4
      "(newClientStats ''alice'' 0)\<lparr>AvgLatencyMs := 8\<rparr>"] s1
  have s2: "map_option AvgLatencyMs (stats (UpdateLatency (UpdateLatency m0 ''alice'' 8) ''alice'' 4) ''alice'')
      = Some 6"
    by simp
  show ?thesis
    using n u0 s0 s1 s2 unfolding m0_def by simp
qed

text \<open>
  C8. For a client that is in the client map, \<open>DeleteClient\<close> returns true and removes
  the client from the client map and from the statistics map. A second \<open>DeleteClient\<close>
  for the same identifier returns false and changes nothing, and \<open>GetClientConfig\<close> and
  \<open>GetClientStats\<close> for that identifier report not-found.
\<close>

theorem DeleteClient_removes_client:
  assumes "clients m clientID \<noteq> None"
  shows "snd (DeleteClient m clientID)
    \<and> clients (fst (DeleteClient m clientID)) clientID = None
    \<and> stats (fst (DeleteClient m clientID)) clientID = None
    \<and> \<not> snd (DeleteClient (fst (DeleteClient m clientID)) clientID)
    \<and> fst (DeleteClient (fst (DeleteClient m clientID)) clientID) = fst (DeleteClient m clientID)
    \<and> GetClientConfig (fst (DeleteClient m clientID)) clientID = None
    \<and> snd (GetClientStats (fst (DeleteClient m clientID)) clientID clk) = None"
  using assms by (simp add: DeleteClient_def GetClientConfig_def GetClientStats_def Let_def)

theorem DeleteClient_removes_client_witness:
  "clients (SetClientConfig NewManager
       \<lparr>ClientID = ''alice'', RPM = Some 2, TPM = None, Enabled = True\<rparr> (clock_at 0)) ''alice'' \<noteq> None
   \<and> snd (DeleteClient (SetClientConfig NewManager
       \<lparr>ClientID = ''alice'', RPM = Some 2, TPM = None, Enabled = True\<rparr> (clock_at 0)) ''alice'')
   \<and> fst (DeleteClient (SetClientConfig NewManager
       \<lparr>ClientID = ''alice'', RPM = Some 2, TPM = None, Enabled = True\<rparr> (clock_at 0)) ''alice'')
       = NewManager
   \<and> \<not> snd (DeleteClient NewManager ''alice'')
   \<and> GetClientConfig NewManager ''alice'' = None
   \<and> snd (GetClientStats NewManager ''alice'' (clock_at 1)) = None"
proof -
  have h: "clients (SetClientConfig NewManager
       \<lparr>ClientID = ''alice'', RPM = Some 2, TPM = None, Enabled = True\<rparr> (clock_at 0)) ''alice'' \<noteq> None"
    by (simp add: SetClientConfig_clients)
  have e: "fst (DeleteClient (SetClientConfig NewManager
       \<lparr>ClientID = ''alice'', RPM = Some 2, TPM = None, Enabled = True\<rparr> (clock_at 0)) ''alice'')
       = NewManager"
    by (simp add: DeleteClient_def SetClientConfig_def NewManager_def Let_def)
  from DeleteClient_removes_client [OF h, of "clock_at 1"] h e show ?thesis by simp
qed

text \<open>
  C9, as the claim states it, fails. The claim lets any call other than
  \<open>CheckAndConsume\<close> and \<open>UpdateLatency\<close> come between two reads. \<open>DeleteClient\<close>
  followed by \<open>SetClientConfig\<close> is such a pair of calls, and it replaces the client's
  statistics record by a zeroed one: \<open>alice\<close> has one admitted request of weight 1, the
  first \<open>GetClientStats\<close> reports total 1, success 1, weight used 1; after the two
  calls the second \<open>GetClientStats\<close> reports 0 for all of them.
\<close>

theorem repeated_reads_counterexample:
  "run NewManager
      [OpSetClientConfig \<lparr>ClientID = ''alice'', RPM = Some 2, TPM = None, Enabled = True\<rparr> (clock_at 0),
       OpCheckAndConsume ''alice'' 1 (clock_at 0)]
     = Inr (after NewManager
      [OpSetClientConfig \<lparr>ClientID = ''alice'', RPM = Some 2, TPM = None, Enabled = True\<rparr> (clock_at 0),
       OpCheckAndConsume ''alice'' 1 (clock_at 0)])
   \<and> map_option counters (snd (read_stats (after NewManager
      [OpSetClientConfig \<lparr>ClientID = ''alice'', RPM = Some 2, TPM = None, Enabled = True\<rparr> (clock_at 0),
       OpCheckAndConsume ''alice'' 1 (clock_at 0)]) ''alice'' (ByGetClientStats (clock_at 0))))
     = Some (1, 1, 0, 0, 0, 1, 0)
   \<and> list_all no_decide_no_latency
      [OpDeleteClient ''alice'',
       OpSetClientConfig \<lparr>ClientID = ''alice'', RPM = Some 2, TPM = None, Enabled = True\<rparr> (clock_at 0)]
   \<and> run (fst (read_stats (after NewManager
      [OpSetClientConfig \<lparr>ClientID = ''alice'', RPM = Some 2, TPM = None, Enabled = True\<rparr> (clock_at 0),
       OpCheckAndConsume ''alice'' 1 (clock_at 0)]) ''alice'' (ByGetClientStats (clock_at 0))))
      [OpDeleteClient ''alice'',
       OpSetClientConfig \<lparr>ClientID = ''alice'', RPM = Some 2, TPM = None, Enabled = True\<rparr> (clock_at 0)]
     = Inr (SetClientConfig NewManager
        \<lparr>ClientID = ''alice'', RPM = Some 2, TPM = None, Enabled = True\<rparr> (clock_at 0))
   \<and> map_option counters (snd (read_stats (SetClientConfig NewManager
        \<lparr>ClientID = ''alice'', RPM = Some 2, TPM = None, Enabled = True\<rparr> (clock_at 0))
        ''alice'' (ByGetClientStats (clock_at 0))))
     = Some (0, 0, 0, 0, 0, 0, 0)"
  by (simp add: after_def CheckAndConsume_def SetClientConfig_def NewManager_def clock_at_def Let_def
      TryConsume_def refill_def NewTokenBucket_def float64_of_small returning_def
      updateSuccessStats_def word_sless_alt newClientStats_def counters_def
      GetClientStats_def refreshRemaining_def GetRemainingTokens_def DeleteClient_def)

text \<open>
  C9, amended. Read a client's statistics through \<open>GetClientStats\<close> or through
  \<open>GetAllStats\<close>, let any sequence of calls follow that contains no
  \<open>CheckAndConsume\<close>, no \<open>UpdateLatency\<close> and no \<open>DeleteClient\<close> of that client, and
  read again through either method. The second read finds the record, and it differs
  from the first at most in the two remaining-quota fields: total, success, dropped,
  the two per-dimension drops, the weight used and the last-request time are the same.
\<close>

theorem repeated_reads_same_counters:
  assumes "read_stats m k r1 = (m1, Some s1)"
    and "run m1 xs = Inr m2"
    and "\<forall>x\<in>set xs. keeps_record k x"
  shows "\<exists>s2 a b. snd (read_stats m2 k r2) = Some s2
           \<and> s2 = s1\<lparr>RPMRemaining := a, TPMRemaining := b\<rparr>
           \<and> counters s2 = counters s1"
proof -
  have "stats m1 k = Some s1"
    using read_stats_stored [of m k r1] assms(1) by simp
  from run_keeps_record [OF assms(2,3) this]
  obtain a b where "stats m2 k = Some (s1\<lparr>RPMRemaining := a, TPMRemaining := b\<rparr>)"
    by blast
  from read_stats_value [OF this, of r2]
  obtain a' b' where "snd (read_stats m2 k r2) = Some (s1\<lparr>RPMRemaining := a', TPMRemaining := b'\<rparr>)"
    by auto
  then have "snd (read_stats m2 k r2) = Some (s1\<lparr>RPMRemaining := a', TPMRemaining := b'\<rparr>)
      \<and> s1\<lparr>RPMRemaining := a', TPMRemaining := b'\<rparr> = s1\<lparr>RPMRemaining := a', TPMRemaining := b'\<rparr>
      \<and> counters (s1\<lparr>RPMRemaining := a', TPMRemaining := b'\<rparr>) = counters s1"
    by simp
  then show ?thesis by blast
qed

theorem repeated_reads_same_counters_witness:
  "read_stats (SetClientConfig NewManager
        \<lparr>ClientID = ''alice'', RPM = Some 60, TPM = None, Enabled = True\<rparr> (clock_at 0))
      ''alice'' (ByGetClientStats (clock_at 0))
     = (SetClientConfig NewManager
          \<lparr>ClientID = ''alice'', RPM = Some 60, TPM = None, Enabled = True\<rparr> (clock_at 0)
          \<lparr>stats := [''alice'' \<mapsto> (newClientStats ''alice'' 0)\<lparr>RPMRemaining := 60\<rparr>]\<rparr>,
        Some ((newClientStats ''alice'' 0)\<lparr>RPMRemaining := 60\<rparr>))
   \<and> run (SetClientConfig NewManager
          \<lparr>ClientID = ''alice'', RPM = Some 60, TPM = None, Enabled = True\<rparr> (clock_at 0)
          \<lparr>stats := [''alice'' \<mapsto> (newClientStats ''alice'' 0)\<lparr>RPMRemaining := 60\<rparr>]\<rparr>)
        [OpSetClientConfig \<lparr>ClientID = ''alice'', RPM = Some 7, TPM = None, Enabled = True\<rparr> (clock_at 5),
         OpDeleteClient ''bob'']
     = Inr (after (SetClientConfig NewManager
          \<lparr>ClientID = ''alice'', RPM = Some 60, TPM = None, Enabled = True\<rparr> (clock_at 0)
          \<lparr>stats := [''alice'' \<mapsto> (newClientStats ''alice'' 0)\<lparr>RPMRemaining := 60\<rparr>]\<rparr>)
        [OpSetClientConfig \<lparr>ClientID = ''alice'', RPM = Some 7, TPM = None, Enabled = True\<rparr> (clock_at 5),
         OpDeleteClient ''bob''])
   \<and> keeps_record ''alice''
        (OpSetClientConfig \<lparr>ClientID = ''alice'', RPM = Some 7, TPM = None, Enabled = True\<rparr> (clock_at 5))
   \<and> keeps_record ''alice'' (OpDeleteClient ''bob'')
   \<and> (\<exists>s2. snd (read_stats (after (SetClientConfig NewManager
          \<lparr>ClientID = ''alice'', RPM = Some 60, TPM = None, Enabled = True\<rparr> (clock_at 0)
          \<lparr>stats := [''alice'' \<mapsto> (newClientStats ''alice'' 0)\<lparr>RPMRemaining := 60\<rparr>]\<rparr>)
        [OpSetClientConfig \<lparr>ClientID = ''alice'', RPM = Some 7, TPM = None, Enabled = True\<rparr> (clock_at 5),
         OpDeleteClient ''bob'']) ''alice'' (ByGetAllStats (clocks_at 9))) = Some s2
        \<and> counters s2 = (0, 0, 0, 0, 0, 0, 0))"
proof -
  define m0 where "m0 = SetClientConfig NewManager
        \<lparr>ClientID = ''alice'', RPM = Some 60, TPM = None, Enabled = True\<rparr> (clock_at 0)"
  define s1 where "s1 = (newClientStats ''alice'' 0)\<lparr>RPMRemaining := 60\<rparr>"
  define m1 where "m1 = m0\<lparr>stats := [''alice'' \<mapsto> s1]\<rparr>"
  define xs where "xs =
        [OpSetClientConfig \<lparr>ClientID = ''alice'', RPM = Some 7, TPM = None, Enabled = True\<rparr> (clock_at 5),
         OpDeleteClient ''bob'']"
  have rd: "read_stats m0 ''alice'' (ByGetClientStats (clock_at 0)) = (m1, Some s1)"
    by (simp add: m0_def m1_def s1_def SetClientConfig_def NewManager_def clock_at_def Let_def
        GetClientStats_def refreshRemaining_def GetRemainingTokens_def refill_def NewTokenBucket_def
        float64_of_small int64_of_def word_sless_alt newClientStats_def)
  have rn: "run m1 xs = Inr (after m1 xs)"
    by (simp add: after_def xs_def)
  have kp: "\<forall>x\<in>set xs. keeps_record ''alice'' x"
    by (simp add: xs_def)
  have c1: "counters s1 = (0, 0, 0, 0, 0, 0, 0)"
    by (simp add: s1_def counters_def newClientStats_def)
  from repeated_reads_same_counters [OF rd rn kp, of "ByGetAllStats (clocks_at 9)"] c1
  have "\<exists>s2. snd (read_stats (after m1 xs) ''alice'' (ByGetAllStats (clocks_at 9))) = Some s2
        \<and> counters s2 = (0, 0, 0, 0, 0, 0, 0)"
    by auto
  then show ?thesis
    using rd rn kp unfolding m0_def m1_def s1_def xs_def by simp
qed



end
